theory Spec2Isabelle
  imports Complex_Main "HOL-Library.AList"
begin

section \<open>Python values used by \<open>kv_store.py\<close>\<close>

text \<open>
  A Python \<open>dict\<close> keeps its keys in insertion order and holds each key once. It is
  modelled as an association list: iteration follows the list, \<open>d[k] = v\<close> replaces the
  value in place when \<open>k\<close> is present and appends otherwise, \<open>del d[k]\<close> raises
  \<open>KeyError\<close> when \<open>k\<close> is absent.
\<close>

type_synonym ('k, 'v) dict = "('k \<times> 'v) list"

text \<open>
  The exceptions the store raises. \<open>ValueError\<close> is the specification's InvalidArgument
  (key too long, value too large, batch too large). Python raises \<open>KeyError\<close> with three
  different messages: "already exists" (AlreadyExists), "not found" (NotFound), and the
  bare one of a failing \<open>del\<close>. \<open>MemoryError\<close> is CapacityExceeded. \<open>LoadError\<close> stands for
  whatever \<open>open\<close> or \<open>json.load\<close> raise on a missing or unparsable file.
\<close>

datatype error =
    ValueError
  | KeyError_exists
  | KeyError_not_found
  | KeyError_del
  | MemoryError
  | LoadError

definition keys :: "('k, 'v) dict \<Rightarrow> 'k list" where
  "keys d = map fst d"

definition contains :: "'k \<Rightarrow> ('k, 'v) dict \<Rightarrow> bool" where
  "contains k d = (k \<in> set (keys d))"

definition getitem :: "('k, 'v) dict \<Rightarrow> 'k \<Rightarrow> 'v option" where
  "getitem d k = map_of d k"

definition setitem :: "'k \<Rightarrow> 'v \<Rightarrow> ('k, 'v) dict \<Rightarrow> ('k, 'v) dict" where
  "setitem k v d = AList.update k v d"

definition delitem :: "'k \<Rightarrow> ('k, 'v) dict \<Rightarrow> error + ('k, 'v) dict" where
  "delitem k d = (if contains k d then Inr (AList.delete k d) else Inl KeyError_del)"

section \<open>The environment of the store\<close>

text \<open>
  The library functions the store calls are parameters of the model. Values are the
  documents \<open>json.dumps\<close> accepts (type \<open>'v\<close>).
  \<^item> \<open>json_dumps v\<close> is the text \<open>json.dumps(v)\<close>;
  \<^item> \<open>json_dump st tt\<close> is the content (type \<open>'f\<close>) that
    \<open>json.dump({'store': st, 'ttl_store': tt}, file)\<close> writes;
  \<^item> \<open>json_load f\<close> parses a file: \<open>None\<close> when \<open>json.load\<close> raises, otherwise
    the two fields \<open>'store'\<close> and \<open>'ttl_store'\<close> of the document, each \<open>None\<close> when the
    field is missing;
  \<^item> \<open>getsize f\<close> is \<open>os.path.getsize\<close> of a file with content \<open>f\<close>;
  \<^item> \<open>time_time n\<close> is what the \<open>n\<close>-th call of \<open>time.time()\<close> returns, in seconds.
    Nothing is assumed about the clock;
  \<^item> \<open>float_add a b\<close> is the float that Python's \<open>a + b\<close> returns.
  Python's numbers are floats here. A finite float is a real number, and Python compares
  two of them as the real numbers they are, so instants, expiries and \<open>ttl\<close> have type
  \<open>real\<close> and \<open>>\<close> is the order of the reals. The sum of two floats is in general not a
  float: \<open>+\<close> rounds it to one, so the sum the store computes is \<open>float_add\<close>, a parameter,
  and never the sum of the reals.
\<close>

record ('v, 'f) env =
  json_dumps :: "'v \<Rightarrow> string"
  json_dump :: "(string, 'v) dict \<Rightarrow> (string, real) dict \<Rightarrow> 'f"
  json_load :: "'f \<Rightarrow> ((string, 'v) dict option \<times> (string, real) dict option) option"
  getsize :: "'f \<Rightarrow> nat"
  time_time :: "nat \<Rightarrow> real"
  float_add :: "real \<Rightarrow> real \<Rightarrow> real"

section \<open>class KeyValueStore\<close>

text \<open>
  The fields of the object (\<open>store\<close>, \<open>ttl_store\<close>, \<open>max_file_size\<close>) together with the
  part of the world it acts on: \<open>backing_file\<close> is the content of the file at \<open>file_path\<close>
  (\<open>None\<close> when the file does not exist) and \<open>ticks\<close> counts the calls of
  \<open>time.time()\<close> made so far. The lock is not modelled: operations run one at a time.
\<close>

record ('v, 'f) kv_state =
  store :: "(string, 'v) dict"
  ttl_store :: "(string, real) dict"
  max_file_size :: nat
  backing_file :: "'f option"
  ticks :: nat

type_synonym ('v, 'f, 'a) result = "(error + 'a) \<times> ('v, 'f) kv_state"

definition save_store :: "('v, 'f) env \<Rightarrow> ('v, 'f) kv_state \<Rightarrow> ('v, 'f) kv_state" where
  "save_store E s = s\<lparr>backing_file := Some (json_dump E (store s) (ttl_store s))\<rparr>"

definition load_store :: "('v, 'f) env \<Rightarrow> ('v, 'f) kv_state \<Rightarrow> ('v, 'f, unit) result" where
  "load_store E s =
     (case backing_file s of
        None \<Rightarrow> (Inl LoadError, s)
      | Some f \<Rightarrow>
          (case json_load E f of
             None \<Rightarrow> (Inl LoadError, s)
           | Some (st, tt) \<Rightarrow>
               (Inr (), s\<lparr>store := (case st of Some d \<Rightarrow> d | None \<Rightarrow> []),
                          ttl_store := (case tt of Some d \<Rightarrow> d | None \<Rightarrow> [])\<rparr>)))"

text \<open>\<open>__init__\<close>: a new object on the file and clock of the world \<open>w\<close>.\<close>

definition init :: "('v, 'f) env \<Rightarrow> nat \<Rightarrow> ('v, 'f) kv_state \<Rightarrow> ('v, 'f, unit) result" where
  "init E mfs w =
     (let s = w\<lparr>store := [], ttl_store := [], max_file_size := mfs\<rparr>
      in if backing_file s \<noteq> None then load_store E s else (Inr (), save_store E s))"

definition check_file_size :: "('v, 'f) env \<Rightarrow> ('v, 'f) kv_state \<Rightarrow> error + unit" where
  "check_file_size E s =
     (case backing_file s of
        None \<Rightarrow> Inr ()
      | Some f \<Rightarrow> if getsize E f > max_file_size s then Inl MemoryError else Inr ())"

definition is_key_expired :: "('v, 'f) env \<Rightarrow> string \<Rightarrow> ('v, 'f) kv_state \<Rightarrow> bool \<times> ('v, 'f) kv_state" where
  "is_key_expired E key s =
     (case getitem (ttl_store s) key of
        Some e \<Rightarrow> (time_time E (ticks s) > e, s\<lparr>ticks := Suc (ticks s)\<rparr>)
      | None \<Rightarrow> (False, s))"

text \<open>The list comprehension of \<open>_clean_expired_keys\<close>, over the keys of \<open>ttl_store\<close>.\<close>

fun expired_keys :: "('v, 'f) env \<Rightarrow> string list \<Rightarrow> ('v, 'f) kv_state \<Rightarrow> string list \<times> ('v, 'f) kv_state" where
  "expired_keys E [] s = ([], s)"
| "expired_keys E (key # rest) s =
     (case is_key_expired E key s of
        (b, s1) \<Rightarrow>
          (case expired_keys E rest s1 of
             (ek, s2) \<Rightarrow> (if b then key # ek else ek, s2)))"

text \<open>The \<open>for\<close> loop of \<open>_clean_expired_keys\<close>: a failing \<open>del\<close> leaves what was deleted
  before it deleted.\<close>

fun del_expired :: "string list \<Rightarrow> ('v, 'f) kv_state \<Rightarrow> ('v, 'f, unit) result" where
  "del_expired [] s = (Inr (), s)"
| "del_expired (key # rest) s =
     (case delitem key (store s) of
        Inl e \<Rightarrow> (Inl e, s)
      | Inr st \<Rightarrow>
          (case delitem key (ttl_store s) of
             Inl e \<Rightarrow> (Inl e, s\<lparr>store := st\<rparr>)
           | Inr tt \<Rightarrow> del_expired rest (s\<lparr>store := st, ttl_store := tt\<rparr>)))"

definition clean_expired_keys :: "('v, 'f) env \<Rightarrow> ('v, 'f) kv_state \<Rightarrow> ('v, 'f, unit) result" where
  "clean_expired_keys E s =
     (case expired_keys E (keys (ttl_store s)) s of
        (ek, s1) \<Rightarrow>
          (case del_expired ek s1 of
             (Inl e, s2) \<Rightarrow> (Inl e, s2)
           | (Inr u, s2) \<Rightarrow> (Inr (), save_store E s2)))"

text \<open>\<open>if ttl: self.ttl_store[key] = time.time() + ttl\<close>. The argument \<open>ttl\<close> is \<open>None\<close> or a
  number; Python takes \<open>None\<close> and \<open>0\<close> as false. The sum is Python's, \<open>float_add\<close>.\<close>

definition record_ttl :: "('v, 'f) env \<Rightarrow> string \<Rightarrow> real option \<Rightarrow> ('v, 'f) kv_state \<Rightarrow> ('v, 'f) kv_state" where
  "record_ttl E key ttl s =
     (case ttl of
        None \<Rightarrow> s
      | Some t \<Rightarrow>
          if t \<noteq> 0
          then s\<lparr>ttl_store := setitem key (float_add E (time_time E (ticks s)) t) (ttl_store s),
                 ticks := Suc (ticks s)\<rparr>
          else s)"

definition create :: "('v, 'f) env \<Rightarrow> string \<Rightarrow> 'v \<Rightarrow> real option \<Rightarrow> ('v, 'f) kv_state \<Rightarrow> ('v, 'f, unit) result" where
  "create E key val ttl s =
     (if length key > 32 then (Inl ValueError, s)
      else if length (json_dumps E val) > 16 * 1024 then (Inl ValueError, s)
      else
        (case clean_expired_keys E s of
           (Inl e, s1) \<Rightarrow> (Inl e, s1)
         | (Inr u, s1) \<Rightarrow>
             if contains key (store s1) then (Inl KeyError_exists, s1)
             else
               (let s2 = s1\<lparr>store := setitem key val (store s1)\<rparr>;
                    s3 = record_ttl E key ttl s2;
                    s4 = save_store E s3
                in (check_file_size E s4, s4))))"

definition read :: "('v, 'f) env \<Rightarrow> string \<Rightarrow> ('v, 'f) kv_state \<Rightarrow> ('v, 'f, 'v) result" where
  "read E key s =
     (case clean_expired_keys E s of
        (Inl e, s1) \<Rightarrow> (Inl e, s1)
      | (Inr u, s1) \<Rightarrow>
          (case getitem (store s1) key of
             None \<Rightarrow> (Inl KeyError_not_found, s1)
           | Some v \<Rightarrow> (Inr v, s1)))"

definition delete :: "('v, 'f) env \<Rightarrow> string \<Rightarrow> ('v, 'f) kv_state \<Rightarrow> ('v, 'f, unit) result" where
  "delete E key s =
     (case clean_expired_keys E s of
        (Inl e, s1) \<Rightarrow> (Inl e, s1)
      | (Inr u, s1) \<Rightarrow>
          if \<not> contains key (store s1) then (Inl KeyError_not_found, s1)
          else
            (let s2 = s1\<lparr>store := AList.delete key (store s1)\<rparr>;
                 s3 = (if contains key (ttl_store s2)
                       then s2\<lparr>ttl_store := AList.delete key (ttl_store s2)\<rparr> else s2)
             in (Inr (), save_store E s3)))"

text \<open>The \<open>for\<close> loop of \<open>batch_create\<close>, over \<open>items.items()\<close>.\<close>

fun batch_loop :: "('v, 'f) env \<Rightarrow> real option \<Rightarrow> (string, 'v) dict \<Rightarrow> ('v, 'f) kv_state \<Rightarrow> ('v, 'f, unit) result" where
  "batch_loop E ttl [] s = (Inr (), s)"
| "batch_loop E ttl ((key, val) # rest) s =
     (if length key > 32 then (Inl ValueError, s)
      else if length (json_dumps E val) > 16 * 1024 then (Inl ValueError, s)
      else if contains key (store s) then (Inl KeyError_exists, s)
      else batch_loop E ttl rest
             (record_ttl E key ttl (s\<lparr>store := setitem key val (store s)\<rparr>)))"

definition batch_create :: "('v, 'f) env \<Rightarrow> (string, 'v) dict \<Rightarrow> real option \<Rightarrow> ('v, 'f) kv_state \<Rightarrow> ('v, 'f, unit) result" where
  "batch_create E items ttl s =
     (if length items > 100 then (Inl ValueError, s)
      else
        (case clean_expired_keys E s of
           (Inl e, s1) \<Rightarrow> (Inl e, s1)
         | (Inr u, s1) \<Rightarrow>
             (case batch_loop E ttl items s1 of
                (Inl e, s2) \<Rightarrow> (Inl e, s2)
              | (Inr u, s2) \<Rightarrow>
                  (let s3 = save_store E s2 in (check_file_size E s3, s3)))))"


section \<open>Invariants and a small environment to run the model\<close>

text \<open>The invariant of the data model: every key of \<open>ttl_store\<close> is a key of \<open>store\<close>.\<close>

definition ttl_inv :: "('v, 'f) kv_state \<Rightarrow> bool" where
  "ttl_inv s = (set (keys (ttl_store s)) \<subseteq> set (keys (store s)))"

text \<open>No key of \<open>store\<close> is longer than 32 characters.\<close>

definition keys_ok :: "('v, 'f) kv_state \<Rightarrow> bool" where
  "keys_ok s = (\<forall>k \<in> set (keys (store s)). length k \<le> 32)"

text \<open>
  An environment for running the model: values are strings, written between double
  quotes; the file content is the pair of dictionaries itself, its size the number of
  characters of all keys and values; the clock is given. The sum of two floats is the sum
  of the reals, which is what Python returns on the whole numbers of seconds used below
  (they and their sums are floats, so nothing is rounded).
\<close>

definition demo_env :: "(nat \<Rightarrow> real) \<Rightarrow> (string, (string, string) dict \<times> (string, real) dict) env" where
  "demo_env clock =
     \<lparr>json_dumps = (\<lambda>v. [CHR 0x22] @ v @ [CHR 0x22]),
      json_dump = (\<lambda>st tt. (st, tt)),
      json_load = (\<lambda>(st, tt). Some (Some st, Some tt)),
      getsize = (\<lambda>(st, tt). sum_list (map (\<lambda>(k, v). length k + length v) st)
                              + sum_list (map (\<lambda>(k, e). length k) tt)),
      time_time = clock,
      float_add = (\<lambda>a b. a + b)\<rparr>"

text \<open>A store with one permanent key and one key whose expiry is the instant 50, not yet
  saved to a file.\<close>

definition demo_state :: "nat \<Rightarrow> (string, (string, string) dict \<times> (string, real) dict) kv_state" where
  "demo_state mfs =
     \<lparr>store = [(''perm'', ''p''), (''temp'', ''t'')], ttl_store = [(''temp'', 50)],
      max_file_size = mfs, backing_file = None, ticks = 0\<rparr>"


text \<open>
  A second environment, with values that are not all JSON documents: strings, lists and
  tuples of Python. \<open>json.dump\<close> writes a tuple as it writes a list, as an array, and
  \<open>json.load\<close> reads an array as a list. The file content is the JSON document written;
  \<open>render\<close> is its text for a value (strings without characters to escape).
\<close>

datatype pyval = PyStr string | PyList "pyval list" | PyTuple "pyval list"

datatype json = JStr string | JArr "json list"

fun to_json :: "pyval \<Rightarrow> json" where
  "to_json (PyStr s) = JStr s"
| "to_json (PyList vs) = JArr (map to_json vs)"
| "to_json (PyTuple vs) = JArr (map to_json vs)"

fun from_json :: "json \<Rightarrow> pyval" where
  "from_json (JStr s) = PyStr s"
| "from_json (JArr js) = PyList (map from_json js)"

fun join :: "string \<Rightarrow> string list \<Rightarrow> string" where
  "join sep [] = []"
| "join sep [x] = x"
| "join sep (x # y # ys) = x @ sep @ join sep (y # ys)"

fun render :: "json \<Rightarrow> string" where
  "render (JStr s) = [CHR 0x22] @ s @ [CHR 0x22]"
| "render (JArr js) = ''['' @ join '', '' (map render js) @ '']''"

definition json_env :: "(nat \<Rightarrow> real) \<Rightarrow> (pyval, (string, json) dict \<times> (string, real) dict) env" where
  "json_env clock =
     \<lparr>json_dumps = (\<lambda>v. render (to_json v)),
      json_dump = (\<lambda>st tt. (map (\<lambda>(k, v). (k, to_json v)) st, tt)),
      json_load = (\<lambda>(st, tt). Some (Some (map (\<lambda>(k, j). (k, from_json j)) st), Some tt)),
      getsize = (\<lambda>(st, tt). sum_list (map (\<lambda>(k, j). length k + length (render j)) st)
                              + sum_list (map (\<lambda>(k, e). length k) tt)),
      time_time = clock,
      float_add = (\<lambda>a b. a + b)\<rparr>"

text \<open>A world in which the file does not exist yet.\<close>

definition new_world :: "('v, 'f) kv_state" where
  "new_world = \<lparr>store = [], ttl_store = [], max_file_size = 0, backing_file = None, ticks = 0\<rparr>"

text \<open>A new store in which \<open>create('k', ('a', 'b'))\<close> has been called, and the object
  constructed afterwards on the file it has saved.\<close>

definition tuple_store :: "(pyval, (string, json) dict \<times> (string, real) dict) kv_state" where
  "tuple_store =
     snd (create (json_env (\<lambda>n. 100)) ''k'' (PyTuple [PyStr ''a'', PyStr ''b'']) None
            (snd (init (json_env (\<lambda>n. 100)) 1073741824 new_world)))"

definition tuple_restart :: "(pyval, (string, json) dict \<times> (string, real) dict) kv_state" where
  "tuple_restart =
     snd (init (json_env (\<lambda>n. 100)) 1073741824
            (new_world\<lparr>backing_file := backing_file (save_store (json_env (\<lambda>n. 100)) tuple_store)\<rparr>))"


text \<open>Two states with the same dictionaries and the same clock position; they may differ in
  the backing file and in \<open>max_file_size\<close>.\<close>

definition same_memory :: "('v, 'f) kv_state \<Rightarrow> ('v, 'f) kv_state \<Rightarrow> bool" where
  "same_memory s t = (store s = store t \<and> ttl_store s = ttl_store t \<and> ticks s = ticks t)"

text \<open>The states a store goes through when it is started on a new file and used through its
  four operations.\<close>

inductive reachable :: "('v, 'f) env \<Rightarrow> ('v, 'f) kv_state \<Rightarrow> bool" for E :: "('v, 'f) env" where
  new_store: "backing_file w = None \<Longrightarrow> reachable E (snd (init E mfs w))"
| after_create: "reachable E s \<Longrightarrow> reachable E (snd (create E key val ttl s))"
| after_read: "reachable E s \<Longrightarrow> reachable E (snd (read E key s))"
| after_delete: "reachable E s \<Longrightarrow> reachable E (snd (delete E key s))"
| after_batch_create: "reachable E s \<Longrightarrow> reachable E (snd (batch_create E items ttl s))"

section \<open>The expiry sweep\<close>

lemma is_key_expired_fields:
  "is_key_expired E k s = (b, s') \<Longrightarrow>
     store s' = store s \<and> ttl_store s' = ttl_store s \<and> backing_file s' = backing_file s
     \<and> max_file_size s' = max_file_size s"
  by (auto simp: is_key_expired_def split: option.splits)

lemma expired_keys_fields:
  "expired_keys E ks s = (ek, s') \<Longrightarrow>
     store s' = store s \<and> ttl_store s' = ttl_store s \<and> backing_file s' = backing_file s
     \<and> max_file_size s' = max_file_size s"
proof (induction ks arbitrary: s ek s')
  case Nil
  then show ?case by simp
next
  case (Cons k ks)
  obtain b s1 where a: "is_key_expired E k s = (b, s1)" by fastforce
  obtain r s2 where b: "expired_keys E ks s1 = (r, s2)" by fastforce
  from Cons.prems a b have "s' = s2" by (simp split: if_splits)
  with Cons.IH [OF b] is_key_expired_fields [OF a] show ?case by simp
qed

lemma expired_keys_subset:
  "expired_keys E ks s = (ek, s') \<Longrightarrow> set ek \<subseteq> set ks \<and> (distinct ks \<longrightarrow> distinct ek)"
proof (induction ks arbitrary: s ek s')
  case Nil
  then show ?case by simp
next
  case (Cons k ks)
  obtain b s1 where a: "is_key_expired E k s = (b, s1)" by fastforce
  obtain r s2 where b: "expired_keys E ks s1 = (r, s2)" by fastforce
  from Cons.prems a b have "ek = (if b then k # r else r)" by simp
  with Cons.IH [OF b] show ?case by auto
qed

lemma del_expired_ttl_inv:
  "ttl_inv s \<Longrightarrow> ttl_inv (snd (del_expired ek s))"
proof (induction ek arbitrary: s)
  case Nil
  then show ?case by simp
next
  case (Cons k ek)
  show ?case
  proof (cases "contains k (store s)")
    case False
    with Cons.prems show ?thesis by (simp add: delitem_def)
  next
    case True
    note inst = True
    show ?thesis
    proof (cases "contains k (ttl_store s)")
      case False
      with inst Cons.prems show ?thesis
        by (force simp: delitem_def ttl_inv_def contains_def keys_def delete_keys)
    next
      case True
      have "ttl_inv (s\<lparr>store := AList.delete k (store s), ttl_store := AList.delete k (ttl_store s)\<rparr>)"
        using Cons.prems by (auto simp: ttl_inv_def keys_def delete_keys)
      from Cons.IH [OF this] inst True show ?thesis by (simp add: delitem_def)
    qed
  qed
qed

lemma del_expired_ok:
  "distinct ek \<Longrightarrow> set ek \<subseteq> set (keys (ttl_store s)) \<Longrightarrow> ttl_inv s \<Longrightarrow>
   del_expired ek s =
     (Inr (), s\<lparr>store := filter (\<lambda>p. fst p \<notin> set ek) (store s),
                ttl_store := filter (\<lambda>p. fst p \<notin> set ek) (ttl_store s)\<rparr>)"
proof (induction ek arbitrary: s)
  case Nil
  then show ?case by simp
next
  case (Cons k ek)
  let ?s2 = "s\<lparr>store := AList.delete k (store s), ttl_store := AList.delete k (ttl_store s)\<rparr>"
  from Cons.prems have kt: "contains k (ttl_store s)" and ks: "contains k (store s)"
    by (auto simp: contains_def ttl_inv_def)
  have inv2: "ttl_inv ?s2"
    using Cons.prems by (auto simp: ttl_inv_def keys_def delete_keys)
  have sub2: "set ek \<subseteq> set (keys (ttl_store ?s2))"
    using Cons.prems by (auto simp: keys_def delete_keys)
  have d2: "distinct ek" using Cons.prems by simp
  have f: "\<And>d::(string \<times> 'x) list. filter (\<lambda>p. fst p \<notin> set ek) (AList.delete k d) = filter (\<lambda>p. fst p \<notin> set (k # ek)) d"
    by (auto simp: AList.delete_eq intro: filter_cong)
  show ?case
    using Cons.IH [OF d2 sub2 inv2] kt ks by (simp add: delitem_def f)
qed

lemma del_expired_pres:
  assumes "P s"
    and "\<And>s k. P s \<Longrightarrow> P (s\<lparr>store := AList.delete k (store s)\<rparr>)"
    and "\<And>s k. P s \<Longrightarrow> P (s\<lparr>ttl_store := AList.delete k (ttl_store s)\<rparr>)"
  shows "P (snd (del_expired ek s))"
  using assms(1)
proof (induction ek arbitrary: s)
  case Nil
  then show ?case by simp
next
  case (Cons k ek)
  have a: "P (s\<lparr>store := AList.delete k (store s)\<rparr>)" using Cons.prems by (rule assms(2))
  have "P (s\<lparr>store := AList.delete k (store s)\<rparr>
            \<lparr>ttl_store := AList.delete k (ttl_store (s\<lparr>store := AList.delete k (store s)\<rparr>))\<rparr>)"
    using a by (rule assms(3))
  then have b: "P (s\<lparr>store := AList.delete k (store s), ttl_store := AList.delete k (ttl_store s)\<rparr>)"
    by simp
  show ?case
  proof (cases "contains k (store s)")
    case False
    with Cons.prems show ?thesis by (simp add: delitem_def)
  next
    case True
    note inst = True
    show ?thesis
    proof (cases "contains k (ttl_store s)")
      case False
      with inst a show ?thesis by (simp add: delitem_def)
    next
      case True
      with inst Cons.IH [OF b] show ?thesis by (simp add: delitem_def)
    qed
  qed
qed

lemma set_delete_sub: "set (AList.delete k d) \<subseteq> set d"
  by (auto simp: AList.delete_eq)

lemma distinct_keys_delete: "distinct (keys d) \<Longrightarrow> distinct (keys (AList.delete k d))"
  by (simp add: keys_def distinct_delete)

lemma del_expired_store_sub: "set (store (snd (del_expired ek s))) \<subseteq> set (store s)"
proof -
  have "(\<lambda>s'. set (store s') \<subseteq> set (store s)) (snd (del_expired ek s))"
    by (rule del_expired_pres) (use set_delete_sub in fastforce)+
  then show ?thesis .
qed

lemma del_expired_ttl_sub: "set (ttl_store (snd (del_expired ek s))) \<subseteq> set (ttl_store s)"
proof -
  have "(\<lambda>s'. set (ttl_store s') \<subseteq> set (ttl_store s)) (snd (del_expired ek s))"
    by (rule del_expired_pres) (use set_delete_sub in fastforce)+
  then show ?thesis .
qed

lemma del_expired_distinct_store:
  "distinct (keys (store s)) \<Longrightarrow> distinct (keys (store (snd (del_expired ek s))))"
  by (rule del_expired_pres [where P = "\<lambda>s. distinct (keys (store s))"])
     (simp_all add: distinct_keys_delete)

lemma del_expired_distinct_ttl:
  "distinct (keys (ttl_store s)) \<Longrightarrow> distinct (keys (ttl_store (snd (del_expired ek s))))"
  by (rule del_expired_pres [where P = "\<lambda>s. distinct (keys (ttl_store s))"])
     (simp_all add: distinct_keys_delete)

lemma del_expired_other:
  "max_file_size (snd (del_expired ek s)) = max_file_size s \<and>
   backing_file (snd (del_expired ek s)) = backing_file s \<and>
   ticks (snd (del_expired ek s)) = ticks s"
  by (rule del_expired_pres [where P = "\<lambda>s'. max_file_size s' = max_file_size s \<and>
   backing_file s' = backing_file s \<and> ticks s' = ticks s"]) simp_all

lemma del_expired_sub:
  "set (store (snd (del_expired ek s))) \<subseteq> set (store s) \<and>
   set (ttl_store (snd (del_expired ek s))) \<subseteq> set (ttl_store s) \<and>
   (distinct (keys (store s)) \<longrightarrow> distinct (keys (store (snd (del_expired ek s))))) \<and>
   (distinct (keys (ttl_store s)) \<longrightarrow> distinct (keys (ttl_store (snd (del_expired ek s))))) \<and>
   max_file_size (snd (del_expired ek s)) = max_file_size s"
  using del_expired_store_sub [of ek s] del_expired_ttl_sub [of ek s]
    del_expired_distinct_store [of s ek] del_expired_distinct_ttl [of s ek] del_expired_other [of ek s]
  by blast

lemma clean_expired_keys_ttl_inv:
  "ttl_inv s \<Longrightarrow> ttl_inv (snd (clean_expired_keys E s))"
proof -
  assume inv: "ttl_inv s"
  obtain ek s1 where a: "expired_keys E (keys (ttl_store s)) s = (ek, s1)" by fastforce
  from expired_keys_fields [OF a] inv have "ttl_inv s1" by (simp add: ttl_inv_def)
  from del_expired_ttl_inv [OF this, of ek] a show ?thesis
    by (auto simp: clean_expired_keys_def save_store_def ttl_inv_def split: prod.splits sum.splits)
qed

lemma clean_expired_keys_sub:
  "set (store (snd (clean_expired_keys E s))) \<subseteq> set (store s) \<and>
   set (ttl_store (snd (clean_expired_keys E s))) \<subseteq> set (ttl_store s) \<and>
   (distinct (keys (store s)) \<longrightarrow> distinct (keys (store (snd (clean_expired_keys E s))))) \<and>
   (distinct (keys (ttl_store s)) \<longrightarrow> distinct (keys (ttl_store (snd (clean_expired_keys E s))))) \<and>
   max_file_size (snd (clean_expired_keys E s)) = max_file_size s"
proof -
  obtain ek s1 where a: "expired_keys E (keys (ttl_store s)) s = (ek, s1)" by fastforce
  obtain r s2 where b: "del_expired ek s1 = (r, s2)" by fastforce
  have c: "snd (clean_expired_keys E s) = s2 \<or> snd (clean_expired_keys E s) = save_store E s2"
    using a b by (cases r) (simp_all add: clean_expired_keys_def)
  from del_expired_sub [of ek s1] b expired_keys_fields [OF a]
  have "set (store s2) \<subseteq> set (store s) \<and> set (ttl_store s2) \<subseteq> set (ttl_store s) \<and>
   (distinct (keys (store s)) \<longrightarrow> distinct (keys (store s2))) \<and>
   (distinct (keys (ttl_store s)) \<longrightarrow> distinct (keys (ttl_store s2))) \<and>
   max_file_size s2 = max_file_size s" by simp
  with c show ?thesis by (auto simp: save_store_def)
qed


lemma clean_expired_keys_error:
  "clean_expired_keys E s = (Inl e, s1) \<Longrightarrow> e = KeyError_del"
proof -
  have "\<And>ek (s::('a, 'b) kv_state) e s1. del_expired ek s = (Inl e, s1) \<Longrightarrow> e = KeyError_del"
  proof -
    fix ek and s :: "('a, 'b) kv_state" and e s1
    show "del_expired ek s = (Inl e, s1) \<Longrightarrow> e = KeyError_del"
      by (induction ek arbitrary: s) (auto simp: delitem_def split: if_splits)
  qed
  then show "clean_expired_keys E s = (Inl e, s1) \<Longrightarrow> e = KeyError_del"
    by (auto simp: clean_expired_keys_def split: prod.splits sum.splits)
qed

lemma clean_expired_keys_ok:
  assumes d: "distinct (keys (ttl_store s))" and inv: "ttl_inv s"
  shows "\<exists>ek s1. expired_keys E (keys (ttl_store s)) s = (ek, s1) \<and>
           clean_expired_keys E s =
             (Inr (), save_store E (s1\<lparr>store := filter (\<lambda>p. fst p \<notin> set ek) (store s),
                ttl_store := filter (\<lambda>p. fst p \<notin> set ek) (ttl_store s)\<rparr>))"
proof -
  obtain ek s1 where a: "expired_keys E (keys (ttl_store s)) s = (ek, s1)" by fastforce
  from expired_keys_fields [OF a] have f: "store s1 = store s" "ttl_store s1 = ttl_store s" by simp_all
  from expired_keys_subset [OF a] d
  have "distinct ek" "set ek \<subseteq> set (keys (ttl_store s1))" by (simp_all add: f)
  moreover have "ttl_inv s1" using inv by (simp add: ttl_inv_def f)
  ultimately have "del_expired ek s1 =
     (Inr (), s1\<lparr>store := filter (\<lambda>p. fst p \<notin> set ek) (store s1),
                ttl_store := filter (\<lambda>p. fst p \<notin> set ek) (ttl_store s1)\<rparr>)"
    by (rule del_expired_ok)
  with a show ?thesis by (simp add: clean_expired_keys_def f)
qed

section \<open>Dictionary facts\<close>

lemma keys_setitem: "set (keys (setitem k v d)) = insert k (set (keys d))"
  using dom_update [of k v d] by (simp add: keys_def setitem_def)

lemma distinct_keys_setitem: "distinct (keys d) \<Longrightarrow> distinct (keys (setitem k v d))"
  by (simp add: keys_def setitem_def distinct_update)

lemma getitem_setitem: "getitem (setitem k v d) k' = (if k' = k then Some v else getitem d k')"
  by (simp add: getitem_def setitem_def update_conv')


lemma contains_getitem: "contains k d \<longleftrightarrow> getitem d k \<noteq> None"
  by (simp add: contains_def keys_def getitem_def map_of_eq_None_iff)

lemma getitem_filter: "k \<notin> A \<Longrightarrow> getitem (filter (\<lambda>p. fst p \<notin> A) d) k = getitem d k"
  by (induction d) (auto simp: getitem_def)

lemma contains_filter: "contains k (filter (\<lambda>p. fst p \<notin> A) d) \<longleftrightarrow> contains k d \<and> k \<notin> A"
  by (induction d) (auto simp: contains_def keys_def)

lemma record_ttl_fields:
  "store (record_ttl E key ttl s) = store s \<and>
   backing_file (record_ttl E key ttl s) = backing_file s \<and>
   max_file_size (record_ttl E key ttl s) = max_file_size s"
  by (simp add: record_ttl_def split: option.splits)

lemma record_ttl_keys:
  "set (keys (ttl_store (record_ttl E key ttl s))) \<subseteq> insert key (set (keys (ttl_store s)))"
  by (auto simp: record_ttl_def keys_setitem split: option.splits)

lemma record_ttl_distinct:
  "distinct (keys (ttl_store s)) \<Longrightarrow> distinct (keys (ttl_store (record_ttl E key ttl s)))"
  by (auto simp: record_ttl_def distinct_keys_setitem split: option.splits)

lemma insert_ttl_inv:
  assumes "ttl_inv s"
  shows "ttl_inv (record_ttl E key ttl (s\<lparr>store := setitem key val (store s)\<rparr>))"
proof -
  let ?s2 = "s\<lparr>store := setitem key val (store s)\<rparr>"
  have "set (keys (ttl_store (record_ttl E key ttl ?s2))) \<subseteq> insert key (set (keys (ttl_store s)))"
    using record_ttl_keys [of E key ttl ?s2] by simp
  moreover have "set (keys (store (record_ttl E key ttl ?s2))) = insert key (set (keys (store s)))"
    by (simp add: record_ttl_fields keys_setitem)
  ultimately show ?thesis using assms unfolding ttl_inv_def by blast
qed

lemma save_store_fields:
  "store (save_store E s) = store s \<and> ttl_store (save_store E s) = ttl_store s \<and>
   max_file_size (save_store E s) = max_file_size s \<and> ticks (save_store E s) = ticks s \<and>
   backing_file (save_store E s) = Some (json_dump E (store s) (ttl_store s))"
  by (simp add: save_store_def)

lemma save_store_ttl_inv: "ttl_inv (save_store E s) = ttl_inv s"
  by (simp add: ttl_inv_def save_store_fields)


section \<open>The invariant of the two mappings\<close>

lemma create_ttl_inv: "ttl_inv s \<Longrightarrow> ttl_inv (snd (create E key val ttl s))"
proof -
  assume inv: "ttl_inv s"
  obtain r s1 where c: "clean_expired_keys E s = (r, s1)" by fastforce
  have inv1: "ttl_inv s1" using clean_expired_keys_ttl_inv [OF inv, of E] c by simp
  show ?thesis
  proof (cases "length key > 32 \<or> length (json_dumps E val) > 16 * 1024")
    case True
    then show ?thesis using inv by (auto simp: create_def)
  next
    case False
    show ?thesis
    proof (cases r)
      case (Inl e)
      with False c inv1 show ?thesis by (simp add: create_def)
    next
      case (Inr u)
      show ?thesis
      proof (cases "contains key (store s1)")
        case True
        with False c Inr inv1 show ?thesis by (simp add: create_def)
      next
        case nc: False
        have "snd (create E key val ttl s)
              = save_store E (record_ttl E key ttl (s1\<lparr>store := setitem key val (store s1)\<rparr>))"
          using False c Inr nc by (simp add: create_def Let_def)
        then show ?thesis using insert_ttl_inv [OF inv1] by (simp add: save_store_ttl_inv)
      qed
    qed
  qed
qed

lemma read_state: "snd (read E key s) = snd (clean_expired_keys E s)"
  by (simp add: read_def split: prod.splits sum.splits option.splits)

lemma read_ttl_inv: "ttl_inv s \<Longrightarrow> ttl_inv (snd (read E key s))"
  by (simp add: read_state clean_expired_keys_ttl_inv)

lemma delete_ttl_inv: "ttl_inv s \<Longrightarrow> ttl_inv (snd (delete E key s))"
proof -
  assume inv: "ttl_inv s"
  obtain r s1 where c: "clean_expired_keys E s = (r, s1)" by fastforce
  have inv1: "ttl_inv s1" using clean_expired_keys_ttl_inv [OF inv, of E] c by simp
  have d: "ttl_inv (s1\<lparr>store := AList.delete key (store s1), ttl_store := AList.delete key (ttl_store s1)\<rparr>)"
    using inv1 by (auto simp: ttl_inv_def keys_def delete_keys)
  have e: "\<not> contains key (ttl_store s1) \<Longrightarrow> ttl_inv (s1\<lparr>store := AList.delete key (store s1)\<rparr>)"
    using inv1 by (auto simp: ttl_inv_def keys_def delete_keys contains_def)
  show ?thesis
  proof (cases r)
    case (Inl e)
    with c inv1 show ?thesis by (simp add: delete_def)
  next
    case (Inr u)
    with c inv1 d e show ?thesis by (simp add: delete_def Let_def save_store_ttl_inv)
  qed
qed

lemma batch_loop_ttl_inv: "ttl_inv s \<Longrightarrow> ttl_inv (snd (batch_loop E ttl items s))"
proof (induction items arbitrary: s)
  case Nil
  then show ?case by simp
next
  case (Cons it items)
  obtain key val where it: "it = (key, val)" by (cases it)
  from Cons.IH [OF insert_ttl_inv [OF Cons.prems]] Cons.prems show ?case
    by (simp add: it)
qed

lemma batch_create_ttl_inv: "ttl_inv s \<Longrightarrow> ttl_inv (snd (batch_create E items ttl s))"
proof -
  assume inv: "ttl_inv s"
  obtain r s1 where c: "clean_expired_keys E s = (r, s1)" by fastforce
  have inv1: "ttl_inv s1" using clean_expired_keys_ttl_inv [OF inv, of E] c by simp
  obtain r2 s2 where b: "batch_loop E ttl items s1 = (r2, s2)" by fastforce
  have inv2: "ttl_inv s2" using batch_loop_ttl_inv [OF inv1, of E ttl items] b by simp
  show ?thesis
  proof (cases "length items > 100")
    case True
    then show ?thesis using inv by (simp add: batch_create_def)
  next
    case False
    then show ?thesis using c b inv1 inv2
      by (cases r; cases r2) (simp_all add: batch_create_def Let_def save_store_ttl_inv)
  qed
qed

text \<open>
  Claim C5. After each public operation (\<open>create\<close>, \<open>read\<close>, \<open>delete\<close>,
  \<open>batch_create\<close>), whether it returns or raises, every key of \<open>ttl_store\<close> is a key of
  \<open>store\<close>, provided this held before the operation.
\<close>

theorem ttl_inv_preserved:
  "ttl_inv s \<Longrightarrow>
     ttl_inv (snd (create E key val ttl s)) \<and>
     ttl_inv (snd (read E key s)) \<and>
     ttl_inv (snd (delete E key s)) \<and>
     ttl_inv (snd (batch_create E items ttl s))"
  by (simp add: create_ttl_inv read_ttl_inv delete_ttl_inv batch_create_ttl_inv)

theorem ttl_inv_preserved_witness:
  "ttl_inv (demo_state 1000) \<and>
   ttl_inv (snd (create (demo_env (\<lambda>n. 100)) ''new'' ''v'' (Some 10) (demo_state 1000))) \<and>
   ttl_inv (snd (read (demo_env (\<lambda>n. 100)) ''temp'' (demo_state 1000))) \<and>
   ttl_inv (snd (delete (demo_env (\<lambda>n. 100)) ''perm'' (demo_state 1000))) \<and>
   ttl_inv (snd (batch_create (demo_env (\<lambda>n. 100)) [(''a'', ''1''), (''perm'', ''2'')] (Some 10)
                  (demo_state 1000)))"
proof -
  have h: "ttl_inv (demo_state 1000)"
    by (simp add: ttl_inv_def demo_state_def keys_def)
  show ?thesis
    using h ttl_inv_preserved [OF h, of "demo_env (\<lambda>n. 100)" "''new''" "''v''" "Some 10"]
      ttl_inv_preserved [OF h, of "demo_env (\<lambda>n. 100)" "''temp''"]
      ttl_inv_preserved [OF h, of "demo_env (\<lambda>n. 100)" "''perm''"]
      ttl_inv_preserved [OF h, of "demo_env (\<lambda>n. 100)" _ _ "Some 10" "[(''a'', ''1''), (''perm'', ''2'')]"]
    by blast
qed

section \<open>What \<open>create\<close> and \<open>batch_create\<close> leave behind\<close>

lemma create_inserted:
  assumes "create E key val ttl s = (r, s')" and "r = Inr () \<or> r = Inl MemoryError"
  shows "\<exists>s1. clean_expired_keys E s = (Inr (), s1) \<and> \<not> contains key (store s1) \<and>
           length key \<le> 32 \<and> length (json_dumps E val) \<le> 16 * 1024 \<and>
           s' = save_store E (record_ttl E key ttl (s1\<lparr>store := setitem key val (store s1)\<rparr>)) \<and>
           r = check_file_size E s'"
proof -
  obtain r1 s1 where c: "clean_expired_keys E s = (r1, s1)" by fastforce
  from assms have v: "length key \<le> 32" "length (json_dumps E val) \<le> 16 * 1024"
    by (auto simp: create_def split: if_splits)
  have r1: "r1 = Inr ()"
  proof (cases r1)
    case (Inl e)
    with assms v c clean_expired_keys_error [of E s e s1] show ?thesis
      by (auto simp: create_def)
  next
    case (Inr u)
    then show ?thesis by simp
  qed
  have nc: "\<not> contains key (store s1)"
    using assms v c r1 by (auto simp: create_def split: if_splits)
  from assms(1) v c r1 nc show ?thesis by (simp add: create_def Let_def, blast)
qed

lemma create_then_read_aux:
  assumes d: "distinct (keys (ttl_store s))" and inv: "ttl_inv s"
    and ok: "create E key val None s = (r, s')" "r = Inr () \<or> r = Inl MemoryError"
  shows "fst (read E key s') = Inr val"
proof -
  from create_inserted [OF ok] obtain s1 where
    c: "clean_expired_keys E s = (Inr (), s1)" and nc: "\<not> contains key (store s1)" and
    s': "s' = save_store E (record_ttl E key None (s1\<lparr>store := setitem key val (store s1)\<rparr>))"
    by blast
  have inv1: "ttl_inv s1" using clean_expired_keys_ttl_inv [OF inv, of E] c by simp
  have d1: "distinct (keys (ttl_store s1))" using clean_expired_keys_sub [of E s] c d by simp
  have st: "store s' = setitem key val (store s1)" and tt: "ttl_store s' = ttl_store s1"
    by (simp_all add: s' save_store_fields record_ttl_def)
  have nt: "key \<notin> set (keys (ttl_store s'))"
    using nc inv1 by (auto simp: tt ttl_inv_def contains_def)
  have inv': "ttl_inv s'" using inv1 by (auto simp: ttl_inv_def st tt keys_setitem)
  have d': "distinct (keys (ttl_store s'))" using d1 by (simp add: tt)
  from clean_expired_keys_ok [OF d' inv', of E] obtain ek s2 where
    e: "expired_keys E (keys (ttl_store s')) s' = (ek, s2)" and
    c2: "clean_expired_keys E s' =
             (Inr (), save_store E (s2\<lparr>store := filter (\<lambda>p. fst p \<notin> set ek) (store s'),
                ttl_store := filter (\<lambda>p. fst p \<notin> set ek) (ttl_store s')\<rparr>))" by blast
  from expired_keys_subset [OF e] nt have "key \<notin> set ek" by blast
  then have "getitem (filter (\<lambda>p. fst p \<notin> set ek) (store s')) key = Some val"
    by (simp add: getitem_filter st getitem_setitem)
  then show ?thesis by (simp add: read_def c2 save_store_fields)
qed

lemma batch_loop_error:
  "batch_loop E ttl items s = (Inl e, s') \<Longrightarrow> e = ValueError \<or> e = KeyError_exists"
proof (induction items arbitrary: s)
  case Nil
  then show ?case by simp
next
  case (Cons it items)
  obtain key val where it: "it = (key, val)" by (cases it)
  from Cons.prems Cons.IH show ?case
    by (auto simp: it split: if_splits)
qed

lemma batch_loop_success:
  "batch_loop E ttl items s = (Inr u, s') \<Longrightarrow>
     (\<forall>(k, v) \<in> set items. getitem (store s') k = Some v) \<and>
     (\<forall>k v. getitem (store s) k = Some v \<longrightarrow> getitem (store s') k = Some v)"
proof (induction items arbitrary: s)
  case Nil
  then show ?case by simp
next
  case (Cons it items)
  obtain key val where it: "it = (key, val)" by (cases it)
  let ?sa = "record_ttl E key ttl (s\<lparr>store := setitem key val (store s)\<rparr>)"
  from Cons.prems have nc: "\<not> contains key (store s)" and
    rest: "batch_loop E ttl items ?sa = (Inr u, s')"
    by (auto simp: it split: if_splits)
  have sa: "store ?sa = setitem key val (store s)" by (simp add: record_ttl_fields)
  from Cons.IH [OF rest] have
    a: "\<forall>(k, v) \<in> set items. getitem (store s') k = Some v" and
    b: "\<forall>k v. getitem (store ?sa) k = Some v \<longrightarrow> getitem (store s') k = Some v" by blast+
  have c: "getitem (store s') key = Some val" using b by (simp add: sa getitem_setitem)
  have d: "\<forall>k v. getitem (store s) k = Some v \<longrightarrow> getitem (store s') k = Some v"
  proof (intro allI impI)
    fix k v assume g: "getitem (store s) k = Some v"
    with nc have "k \<noteq> key" by (auto simp: contains_getitem)
    with g b show "getitem (store s') k = Some v" by (simp add: sa getitem_setitem)
  qed
  from a c d show ?case by (simp add: it)
qed

lemma batch_create_MemoryError:
  assumes "batch_create E items ttl s = (Inl MemoryError, s')"
  shows "\<exists>s1 s2. clean_expired_keys E s = (Inr (), s1) \<and>
           batch_loop E ttl items s1 = (Inr (), s2) \<and> s' = save_store E s2"
proof -
  obtain r1 s1 where c: "clean_expired_keys E s = (r1, s1)" by fastforce
  obtain r2 s2 where b: "batch_loop E ttl items s1 = (r2, s2)" by fastforce
  from assms have l: "\<not> length items > 100" by (auto simp: batch_create_def split: if_splits)
  have r1: "r1 = Inr ()"
  proof (cases r1)
    case (Inl e)
    with assms l c clean_expired_keys_error [of E s e s1] show ?thesis
      by (auto simp: batch_create_def)
  next
    case (Inr u)
    then show ?thesis by simp
  qed
  have r2: "r2 = Inr ()"
  proof (cases r2)
    case (Inl e)
    with assms l c r1 b batch_loop_error [of E ttl items s1 e s2] show ?thesis
      by (auto simp: batch_create_def)
  next
    case (Inr u)
    then show ?thesis by simp
  qed
  from assms l c b r1 r2 show ?thesis by (simp add: batch_create_def Let_def)
qed



text \<open>The definitions to unfold when the model is run on a concrete input.\<close>

lemmas run_defs = demo_env_def demo_state_def keys_def contains_def getitem_def setitem_def
  delitem_def save_store_def load_store_def init_def check_file_size_def is_key_expired_def
  clean_expired_keys_def record_ttl_def create_def read_def delete_def batch_create_def
  ttl_inv_def keys_ok_def

section \<open>Create then read\<close>

text \<open>
  Claim C1. If \<open>create(k, v)\<close> (no \<open>ttl\<close>) succeeds, then \<open>k\<close> has at most 32 characters,
  \<open>json.dumps(v)\<close> at most 16 KiB, and the \<open>read(k)\<close> that follows returns \<open>v\<close>, whatever the
  clock says in between. The store is one of the data model: \<open>ttl_store\<close> is a dictionary
  (no key twice) whose keys are keys of \<open>store\<close>, as in every state reached from a new
  store (\<open>reachable_well_formed\<close> below).
\<close>

theorem create_then_read:
  assumes "distinct (keys (ttl_store s))" and "ttl_inv s"
    and "fst (create E key val None s) = Inr ()"
  shows "length key \<le> 32 \<and> length (json_dumps E val) \<le> 16 * 1024 \<and>
         fst (read E key (snd (create E key val None s))) = Inr val"
proof -
  have c: "create E key val None s = (Inr (), snd (create E key val None s))"
    using assms(3) by (metis prod.collapse)
  from create_inserted [OF c] create_then_read_aux [OF assms(1,2) c] show ?thesis by blast
qed

theorem create_then_read_witness:
  "distinct (keys (ttl_store (demo_state 1000))) \<and> ttl_inv (demo_state 1000) \<and>
   fst (create (demo_env (\<lambda>n. 100)) ''key1'' ''Ram'' None (demo_state 1000)) = Inr () \<and>
   fst (read (demo_env (\<lambda>n. 100)) ''key1''
          (snd (create (demo_env (\<lambda>n. 100)) ''key1'' ''Ram'' None (demo_state 1000)))) = Inr ''Ram''"
proof -
  have h1: "distinct (keys (ttl_store (demo_state 1000)))" by (simp add: run_defs)
  have h2: "ttl_inv (demo_state 1000)" by (simp add: run_defs)
  have h3: "fst (create (demo_env (\<lambda>n. 100)) ''key1'' ''Ram'' None (demo_state 1000)) = Inr ()"
    by (simp add: run_defs)
  from create_then_read [OF h1 h2 h3] h1 h2 h3 show ?thesis by blast
qed

text \<open>
  Claim C7. \<open>batch_create\<close> with more than 100 items raises \<open>ValueError\<close> and returns the
  state it was given: \<open>store\<close>, \<open>ttl_store\<close> and the backing file are unchanged (and the clock
  was not read).
\<close>

theorem batch_create_over_limit:
  "length items > 100 \<Longrightarrow> batch_create E items ttl s = (Inl ValueError, s)"
  by (simp add: batch_create_def)

theorem batch_create_over_limit_witness:
  "length (map (\<lambda>n. (replicate n CHR ''k'', ''v'')) [0..<101]) > 100 \<and>
   batch_create (demo_env (\<lambda>n. 100)) (map (\<lambda>n. (replicate n CHR ''k'', ''v'')) [0..<101]) (Some 10)
     (demo_state 1000) = (Inl ValueError, demo_state 1000)"
proof -
  have h: "length (map (\<lambda>n. (replicate n CHR ''k'', ''v'')) [0..<101]) > 100" by simp
  from batch_create_over_limit [OF h] h show ?thesis by blast
qed

section \<open>Failing batches and the size check\<close>





text \<open>
  Claim C9. When \<open>create\<close> or \<open>batch_create\<close> raises \<open>MemoryError\<close> (the size check that
  follows the save), the new entries are in \<open>store\<close> and the backing file holds the dump of
  the two dictionaries as they are now, new entries included.
\<close>

theorem capacity_exceeded_not_rolled_back:
  "(fst (create E key val ttl s) = Inl MemoryError \<longrightarrow>
      getitem (store (snd (create E key val ttl s))) key = Some val \<and>
      backing_file (snd (create E key val ttl s)) =
        Some (json_dump E (store (snd (create E key val ttl s)))
                (ttl_store (snd (create E key val ttl s))))) \<and>
   (fst (batch_create E items ttl s) = Inl MemoryError \<longrightarrow>
      (\<forall>(k, v) \<in> set items. getitem (store (snd (batch_create E items ttl s))) k = Some v) \<and>
      backing_file (snd (batch_create E items ttl s)) =
        Some (json_dump E (store (snd (batch_create E items ttl s)))
                (ttl_store (snd (batch_create E items ttl s)))))"
proof (intro conjI impI)
  assume a: "fst (create E key val ttl s) = Inl MemoryError"
  then have c: "create E key val ttl s = (Inl MemoryError, snd (create E key val ttl s))"
    by (metis prod.collapse)
  from create_inserted [OF c] obtain s1 where
    s': "snd (create E key val ttl s)
           = save_store E (record_ttl E key ttl (s1\<lparr>store := setitem key val (store s1)\<rparr>))"
    by blast
  show "getitem (store (snd (create E key val ttl s))) key = Some val"
    by (simp add: s' save_store_fields record_ttl_fields getitem_setitem)
  show "backing_file (snd (create E key val ttl s)) =
        Some (json_dump E (store (snd (create E key val ttl s)))
                (ttl_store (snd (create E key val ttl s))))"
    by (simp add: s' save_store_fields)
next
  assume a: "fst (batch_create E items ttl s) = Inl MemoryError"
  then have c: "batch_create E items ttl s = (Inl MemoryError, snd (batch_create E items ttl s))"
    by (metis prod.collapse)
  from batch_create_MemoryError [OF c] obtain s1 s2 where
    l: "batch_loop E ttl items s1 = (Inr (), s2)" and
    s': "snd (batch_create E items ttl s) = save_store E s2" by blast
  from batch_loop_success [OF l]
  show "\<forall>(k, v) \<in> set items. getitem (store (snd (batch_create E items ttl s))) k = Some v"
    by (simp add: s' save_store_fields)
  show "backing_file (snd (batch_create E items ttl s)) =
        Some (json_dump E (store (snd (batch_create E items ttl s)))
                (ttl_store (snd (batch_create E items ttl s))))"
    by (simp add: s' save_store_fields)
qed

theorem capacity_exceeded_not_rolled_back_witness:
  "fst (create (demo_env (\<lambda>n. 100)) ''key1'' ''Ram'' (Some 10) (demo_state 5)) = Inl MemoryError \<and>
   getitem (store (snd (create (demo_env (\<lambda>n. 100)) ''key1'' ''Ram'' (Some 10) (demo_state 5))))
     ''key1'' = Some ''Ram'' \<and>
   backing_file (snd (create (demo_env (\<lambda>n. 100)) ''key1'' ''Ram'' (Some 10) (demo_state 5))) =
     Some ([(''perm'', ''p''), (''key1'', ''Ram'')], [(''key1'', 110)]) \<and>
   fst (batch_create (demo_env (\<lambda>n. 100)) [(''a'', ''1''), (''b'', ''2'')] None (demo_state 5))
     = Inl MemoryError \<and>
   getitem (store (snd (batch_create (demo_env (\<lambda>n. 100)) [(''a'', ''1''), (''b'', ''2'')] None
     (demo_state 5)))) ''b'' = Some ''2'' \<and>
   backing_file (snd (batch_create (demo_env (\<lambda>n. 100)) [(''a'', ''1''), (''b'', ''2'')] None
     (demo_state 5))) = Some ([(''perm'', ''p''), (''a'', ''1''), (''b'', ''2'')], [])"
proof -
  let ?E = "demo_env (\<lambda>n. 100)"
  have h1: "fst (create ?E ''key1'' ''Ram'' (Some 10) (demo_state 5)) = Inl MemoryError"
    by (simp add: run_defs)
  have h2: "fst (batch_create ?E [(''a'', ''1''), (''b'', ''2'')] None (demo_state 5)) = Inl MemoryError"
    by (simp add: run_defs)
  have e1: "store (snd (create ?E ''key1'' ''Ram'' (Some 10) (demo_state 5)))
              = [(''perm'', ''p''), (''key1'', ''Ram'')]"
    by (simp add: run_defs)
  have e2: "ttl_store (snd (create ?E ''key1'' ''Ram'' (Some 10) (demo_state 5))) = [(''key1'', 110)]"
    by (simp add: run_defs)
  have e3: "store (snd (batch_create ?E [(''a'', ''1''), (''b'', ''2'')] None (demo_state 5)))
              = [(''perm'', ''p''), (''a'', ''1''), (''b'', ''2'')]"
    by (simp add: run_defs)
  have e4: "ttl_store (snd (batch_create ?E [(''a'', ''1''), (''b'', ''2'')] None (demo_state 5))) = []"
    by (simp add: run_defs)
  note t1 = capacity_exceeded_not_rolled_back
         [of ?E "''key1''" "''Ram''" "Some 10" "demo_state 5", THEN conjunct1, THEN mp, OF h1]
  note t2 = capacity_exceeded_not_rolled_back
         [of ?E _ _ None "demo_state 5" "[(''a'', ''1''), (''b'', ''2'')]", THEN conjunct2, THEN mp, OF h2]
  have jd: "\<And>st tt. json_dump ?E st tt = (st, tt)" by (simp add: demo_env_def)
  have g1: "getitem (store (snd (create ?E ''key1'' ''Ram'' (Some 10) (demo_state 5)))) ''key1''
              = Some ''Ram''" using t1 by blast
  have f1: "backing_file (snd (create ?E ''key1'' ''Ram'' (Some 10) (demo_state 5))) =
     Some ([(''perm'', ''p''), (''key1'', ''Ram'')], [(''key1'', 110)])"
    using t1 [THEN conjunct2] unfolding e1 e2 jd .
  have g2: "getitem (store (snd (batch_create ?E [(''a'', ''1''), (''b'', ''2'')] None
     (demo_state 5)))) ''b'' = Some ''2''" using t2 by simp
  have f2: "backing_file (snd (batch_create ?E [(''a'', ''1''), (''b'', ''2'')] None
     (demo_state 5))) = Some ([(''perm'', ''p''), (''a'', ''1''), (''b'', ''2'')], [])"
    using t2 [THEN conjunct2] unfolding e3 e4 jd .
  from h1 g1 f1 h2 g2 f2 show ?thesis by blast
qed

lemma batch_loop_distinct_ttl:
  "distinct (keys (ttl_store s)) \<Longrightarrow> distinct (keys (ttl_store (snd (batch_loop E ttl items s))))"
proof (induction items arbitrary: s)
  case Nil
  then show ?case by simp
next
  case (Cons it items)
  obtain key val where it: "it = (key, val)" by (cases it)
  let ?sa = "record_ttl E key ttl (s\<lparr>store := setitem key val (store s)\<rparr>)"
  have "distinct (keys (ttl_store ?sa))"
    using record_ttl_distinct [of "s\<lparr>store := setitem key val (store s)\<rparr>" E key ttl] Cons.prems
    by simp
  from Cons.IH [OF this] Cons.prems show ?case by (simp add: it)
qed

lemma batch_create_distinct_ttl:
  assumes d: "distinct (keys (ttl_store s))"
  shows "distinct (keys (ttl_store (snd (batch_create E items ttl s))))"
proof -
  obtain r s1 where c: "clean_expired_keys E s = (r, s1)" by fastforce
  have d1: "distinct (keys (ttl_store s1))" using clean_expired_keys_sub [of E s] c d by simp
  obtain r2 s2 where b: "batch_loop E ttl items s1 = (r2, s2)" by fastforce
  have d2: "distinct (keys (ttl_store s2))" using batch_loop_distinct_ttl [OF d1, of E ttl items] b by simp
  show ?thesis
  proof (cases "length items > 100")
    case True
    then show ?thesis using d by (simp add: batch_create_def)
  next
    case False
    then show ?thesis using c b d1 d2
      by (cases r; cases r2) (simp_all add: batch_create_def Let_def save_store_fields)
  qed
qed




section \<open>Restart\<close>

lemma is_key_expired_same:
  "same_memory s t \<Longrightarrow>
     fst (is_key_expired E k s) = fst (is_key_expired E k t) \<and>
     same_memory (snd (is_key_expired E k s)) (snd (is_key_expired E k t))"
  by (simp add: same_memory_def is_key_expired_def split: option.splits)

lemma expired_keys_same:
  "same_memory s t \<Longrightarrow>
     fst (expired_keys E ks s) = fst (expired_keys E ks t) \<and>
     same_memory (snd (expired_keys E ks s)) (snd (expired_keys E ks t))"
proof (induction ks arbitrary: s t)
  case Nil
  then show ?case by simp
next
  case (Cons k ks)
  obtain b s1 where a: "is_key_expired E k s = (b, s1)" by fastforce
  obtain b' t1 where a': "is_key_expired E k t = (b', t1)" by fastforce
  from is_key_expired_same [OF Cons.prems, of E k] a a' have bb: "b = b'" and m: "same_memory s1 t1"
    by simp_all
  obtain r s2 where c: "expired_keys E ks s1 = (r, s2)" by fastforce
  obtain r' t2 where c': "expired_keys E ks t1 = (r', t2)" by fastforce
  from Cons.IH [OF m] c c' have "r = r'" "same_memory s2 t2" by simp_all
  with a a' c c' bb show ?case by simp
qed

lemma del_expired_same:
  "same_memory s t \<Longrightarrow>
     fst (del_expired ek s) = fst (del_expired ek t) \<and>
     same_memory (snd (del_expired ek s)) (snd (del_expired ek t))"
proof (induction ek arbitrary: s t)
  case Nil
  then show ?case by simp
next
  case (Cons k ek)
  from Cons.prems have eq: "store s = store t" "ttl_store s = ttl_store t" "ticks s = ticks t"
    by (simp_all add: same_memory_def)
  show ?case
  proof (cases "contains k (store t)")
    case False
    then show ?thesis using Cons.prems by (simp add: delitem_def eq)
  next
    case True
    note inst = True
    show ?thesis
    proof (cases "contains k (ttl_store t)")
      case False
      then show ?thesis using inst by (simp add: delitem_def eq same_memory_def)
    next
      case True
      have "same_memory (s\<lparr>store := AList.delete k (store t), ttl_store := AList.delete k (ttl_store t)\<rparr>)
              (t\<lparr>store := AList.delete k (store t), ttl_store := AList.delete k (ttl_store t)\<rparr>)"
        by (simp add: same_memory_def eq)
      from Cons.IH [OF this] inst True show ?thesis by (simp add: delitem_def eq)
    qed
  qed
qed

lemma clean_expired_keys_same:
  assumes "same_memory s t"
  shows "fst (clean_expired_keys E s) = fst (clean_expired_keys E t) \<and>
         same_memory (snd (clean_expired_keys E s)) (snd (clean_expired_keys E t))"
proof -
  obtain ek s1 where a: "expired_keys E (keys (ttl_store s)) s = (ek, s1)" by fastforce
  obtain ek' t1 where a': "expired_keys E (keys (ttl_store t)) t = (ek', t1)" by fastforce
  have tt: "ttl_store s = ttl_store t" using assms by (simp add: same_memory_def)
  from expired_keys_same [OF assms, of E "keys (ttl_store t)"] a a' tt
  have e: "ek = ek'" and m: "same_memory s1 t1" by simp_all
  obtain r s2 where b: "del_expired ek' s1 = (r, s2)" by fastforce
  obtain r' t2 where b': "del_expired ek' t1 = (r', t2)" by fastforce
  from del_expired_same [OF m, of ek'] b b' have rr: "r = r'" and m2: "same_memory s2 t2"
    by simp_all
  have m3: "same_memory (save_store E s2) (save_store E t2)"
    using m2 by (simp add: same_memory_def save_store_def)
  show ?thesis using a a' e b b' rr m2 m3
    by (cases r') (simp_all add: clean_expired_keys_def)
qed

lemma read_same:
  assumes "same_memory s t"
  shows "fst (read E key s) = fst (read E key t)"
proof -
  obtain r s1 where a: "clean_expired_keys E s = (r, s1)" by fastforce
  obtain r' t1 where a': "clean_expired_keys E t = (r', t1)" by fastforce
  from clean_expired_keys_same [OF assms, of E] a a'
  have "r = r'" "store s1 = store t1" by (simp_all add: same_memory_def)
  with a a' show ?thesis by (cases r') (simp_all add: read_def split: option.splits)
qed

lemma load_store_saved:
  assumes "json_load E f = Some (Some st, Some tt)" and "backing_file w = Some f"
  shows "init E mfs w = (Inr (), w\<lparr>store := st, ttl_store := tt, max_file_size := mfs\<rparr>)"
  using assms by (simp add: init_def load_store_def)

text \<open>
  Claim C2, amended. Take any state \<open>s\<close> of the store whose two dictionaries \<open>json.load\<close>
  reads back as \<open>json.dump\<close> wrote them, and any world \<open>w\<close> whose file is the one saved from
  \<open>s\<close>; nothing else of \<open>w\<close> is used. A new object constructed there (with any
  \<open>max_file_size\<close>) has the \<open>store\<close> and the \<open>ttl_store\<close> of \<open>s\<close>, and a \<open>read\<close> of any key
  on it returns what the old object returns at the same position of the clock: the value
  for a key that has not expired, \<open>KeyError\<close> otherwise.
\<close>

theorem restart_roundtrip:
  assumes "json_load E (json_dump E (store s) (ttl_store s)) = Some (Some (store s), Some (ttl_store s))"
    and "backing_file w = backing_file (save_store E s)"
  shows "\<exists>s'. init E mfs w = (Inr (), s') \<and>
           store s' = store s \<and> ttl_store s' = ttl_store s \<and>
           (\<forall>key. fst (read E key s') = fst (read E key (s\<lparr>ticks := ticks w\<rparr>)))"
proof -
  let ?s' = "w\<lparr>store := store s, ttl_store := ttl_store s, max_file_size := mfs\<rparr>"
  have f: "backing_file w = Some (json_dump E (store s) (ttl_store s))"
    using assms(2) by (simp add: save_store_fields)
  have i: "init E mfs w = (Inr (), ?s')" using load_store_saved [OF assms(1) f] .
  have "same_memory ?s' (s\<lparr>ticks := ticks w\<rparr>)" by (simp add: same_memory_def)
  then have "\<forall>key. fst (read E key ?s') = fst (read E key (s\<lparr>ticks := ticks w\<rparr>))"
    by (simp add: read_same)
  moreover have "store ?s' = store s" "ttl_store ?s' = ttl_store s" by simp_all
  ultimately show ?thesis using i by blast
qed

lemmas json_defs = json_env_def new_world_def tuple_store_def tuple_restart_def

theorem restart_roundtrip_witness:
  "backing_file
     \<lparr>store = [(''junk'', ''x'')], ttl_store = [(''junk'', 7)], max_file_size = 7,
      backing_file = Some ([(''perm'', ''p''), (''temp'', ''t'')], [(''temp'', 50)]), ticks = 0\<rparr>
     = backing_file (save_store (demo_env (\<lambda>n. 40)) (demo_state 1000)) \<and>
   (\<exists>s'. init (demo_env (\<lambda>n. 40)) 2000
           \<lparr>store = [(''junk'', ''x'')], ttl_store = [(''junk'', 7)], max_file_size = 7,
            backing_file = Some ([(''perm'', ''p''), (''temp'', ''t'')], [(''temp'', 50)]), ticks = 0\<rparr>
           = (Inr (), s') \<and>
         store s' = [(''perm'', ''p''), (''temp'', ''t'')] \<and> ttl_store s' = [(''temp'', 50)] \<and>
         fst (read (demo_env (\<lambda>n. 40)) ''temp'' s') = Inr ''t'' \<and>
         fst (read (demo_env (\<lambda>n. 40)) ''perm'' s') = Inr ''p'' \<and>
         fst (read (demo_env (\<lambda>n. 40)) ''junk'' s') = Inl KeyError_not_found)"
proof -
  let ?E = "demo_env (\<lambda>n. 40)"
  let ?w = "\<lparr>store = [(''junk'', ''x'')], ttl_store = [(''junk'', 7)], max_file_size = 7,
      backing_file = Some ([(''perm'', ''p''), (''temp'', ''t'')], [(''temp'', 50::real)]), ticks = 0\<rparr>"
  have h1: "json_load ?E (json_dump ?E (store (demo_state 1000)) (ttl_store (demo_state 1000)))
     = Some (Some (store (demo_state 1000)), Some (ttl_store (demo_state 1000)))"
    by (simp add: demo_env_def)
  have h2: "backing_file ?w = backing_file (save_store ?E (demo_state 1000))"
    by (simp add: run_defs)
  have tk: "(demo_state 1000)\<lparr>ticks := ticks ?w\<rparr> = demo_state 1000" by (simp add: demo_state_def)
  have r1: "fst (read ?E ''temp'' (demo_state 1000)) = Inr ''t''" by (simp add: run_defs)
  have r2: "fst (read ?E ''perm'' (demo_state 1000)) = Inr ''p''" by (simp add: run_defs)
  have r3: "fst (read ?E ''junk'' (demo_state 1000)) = Inl KeyError_not_found" by (simp add: run_defs)
  have st: "store (demo_state 1000) = [(''perm'', ''p''), (''temp'', ''t'')]"
    "ttl_store (demo_state 1000) = [(''temp'', 50)]" by (simp_all add: demo_state_def)
  from restart_roundtrip [OF h1 h2, of 2000] obtain s' where
    a: "init ?E 2000 ?w = (Inr (), s')" and
    b: "store s' = store (demo_state 1000)" "ttl_store s' = ttl_store (demo_state 1000)" and
    c: "\<forall>key. fst (read ?E key s') = fst (read ?E key ((demo_state 1000)\<lparr>ticks := ticks ?w\<rparr>))"
    by blast
  from c have c': "\<forall>key. fst (read ?E key s') = fst (read ?E key (demo_state 1000))"
    unfolding tk .
  from a b c' have "init ?E 2000 ?w = (Inr (), s') \<and>
         store s' = [(''perm'', ''p''), (''temp'', ''t'')] \<and> ttl_store s' = [(''temp'', 50)] \<and>
         fst (read ?E ''temp'' s') = Inr ''t'' \<and> fst (read ?E ''perm'' s') = Inr ''p'' \<and>
         fst (read ?E ''junk'' s') = Inl KeyError_not_found"
    by (simp add: r1 r2 r3 st)
  with h2 show ?thesis by blast
qed

text \<open>
  The claim as stated fails on a reachable state: after \<open>create('k', ('a', 'b'))\<close> on a new
  store, \<open>read('k')\<close> returns the tuple; the object constructed on the saved file holds the
  list \<open>['a', 'b']\<close> instead, and \<open>read('k')\<close> returns it.
\<close>

theorem tuple_value_restart_counterexample:
  "reachable (json_env (\<lambda>n. 100)) tuple_store \<and>
   fst (create (json_env (\<lambda>n. 100)) ''k'' (PyTuple [PyStr ''a'', PyStr ''b'']) None
          (snd (init (json_env (\<lambda>n. 100)) 1073741824 new_world))) = Inr () \<and>
   fst (read (json_env (\<lambda>n. 100)) ''k'' tuple_store) = Inr (PyTuple [PyStr ''a'', PyStr ''b'']) \<and>
   fst (init (json_env (\<lambda>n. 100)) 1073741824
          (new_world\<lparr>backing_file := backing_file (save_store (json_env (\<lambda>n. 100)) tuple_store)\<rparr>))
     = Inr () \<and>
   store tuple_store = [(''k'', PyTuple [PyStr ''a'', PyStr ''b''])] \<and>
   store tuple_restart = [(''k'', PyList [PyStr ''a'', PyStr ''b''])] \<and>
   store tuple_restart \<noteq> store tuple_store \<and>
   fst (read (json_env (\<lambda>n. 100)) ''k'' tuple_restart) = Inr (PyList [PyStr ''a'', PyStr ''b''])"
proof -
  let ?E = "json_env (\<lambda>n. 100)"
  let ?v = "PyTuple [PyStr ''a'', PyStr ''b'']"
  let ?s0 = "\<lparr>store = [], ttl_store = [], max_file_size = 1073741824,
      backing_file = Some ([], []), ticks = 0\<rparr> :: (pyval, (string, json) dict \<times> (string, real) dict) kv_state"
  let ?s1 = "\<lparr>store = [(''k'', ?v)], ttl_store = [], max_file_size = 1073741824,
      backing_file = Some ([(''k'', JArr [JStr ''a'', JStr ''b''])], []), ticks = 0\<rparr>
      :: (pyval, (string, json) dict \<times> (string, real) dict) kv_state"
  let ?s2 = "\<lparr>store = [(''k'', PyList [PyStr ''a'', PyStr ''b''])], ttl_store = [],
      max_file_size = 1073741824,
      backing_file = Some ([(''k'', JArr [JStr ''a'', JStr ''b''])], []), ticks = 0\<rparr>
      :: (pyval, (string, json) dict \<times> (string, real) dict) kv_state"
  have i0: "init ?E 1073741824 new_world = (Inr (), ?s0)"
    by (simp add: json_defs init_def save_store_def)
  have c0: "create ?E ''k'' ?v None ?s0 = (Inr (), ?s1)"
    by (simp add: json_env_def run_defs)
  have ts: "tuple_store = ?s1" by (simp add: tuple_store_def i0 c0)
  have i1: "init ?E 1073741824 (new_world\<lparr>backing_file := backing_file (save_store ?E ?s1)\<rparr>)
              = (Inr (), ?s2)"
    by (simp add: json_env_def new_world_def init_def load_store_def save_store_def)
  have tr: "tuple_restart = ?s2" by (simp add: tuple_restart_def ts i1)
  have re: "reachable ?E tuple_store"
    unfolding tuple_store_def
    by (rule reachable.after_create, rule reachable.new_store) (simp add: new_world_def)
  have r1: "fst (read ?E ''k'' ?s1) = Inr ?v" by (simp add: json_env_def run_defs)
  have r2: "fst (read ?E ''k'' ?s2) = Inr (PyList [PyStr ''a'', PyStr ''b''])"
    by (simp add: json_env_def run_defs)
  have c1: "fst (create ?E ''k'' ?v None (snd (init ?E 1073741824 new_world))) = Inr ()"
    by (simp add: i0 c0)
  have i2: "fst (init ?E 1073741824
          (new_world\<lparr>backing_file := backing_file (save_store ?E tuple_store)\<rparr>)) = Inr ()"
    by (simp add: ts i1)
  show ?thesis
    using re c1 i2 r1 r2 by (simp add: ts tr)
qed

section \<open>Expiry\<close>

lemma is_key_expired_ticks:
  "contains k (ttl_store s) \<Longrightarrow> ticks (snd (is_key_expired E k s)) = Suc (ticks s)"
  by (auto simp: is_key_expired_def contains_getitem split: option.splits)

lemma expired_keys_ticks:
  "set ks \<subseteq> set (keys (ttl_store s)) \<Longrightarrow> ticks (snd (expired_keys E ks s)) = ticks s + length ks"
proof (induction ks arbitrary: s)
  case Nil
  then show ?case by simp
next
  case (Cons k ks)
  obtain b s1 where a: "is_key_expired E k s = (b, s1)" by fastforce
  obtain r s2 where c: "expired_keys E ks s1 = (r, s2)" by fastforce
  from Cons.prems have "contains k (ttl_store s)" by (simp add: contains_def)
  from is_key_expired_ticks [OF this, of E] a have t1: "ticks s1 = Suc (ticks s)" by simp
  from is_key_expired_fields [OF a] Cons.prems have "set ks \<subseteq> set (keys (ttl_store s1))" by simp
  from Cons.IH [OF this] c have "ticks s2 = ticks s1 + length ks" by simp
  with a c t1 show ?case by simp
qed

lemma clean_expired_keys_ticks:
  "ticks (snd (clean_expired_keys E s)) = ticks s + length (ttl_store s)"
proof -
  obtain ek s1 where a: "expired_keys E (keys (ttl_store s)) s = (ek, s1)" by fastforce
  obtain r s2 where b: "del_expired ek s1 = (r, s2)" by fastforce
  from expired_keys_ticks [of "keys (ttl_store s)" s E] a
  have "ticks s1 = ticks s + length (ttl_store s)" by (simp add: keys_def)
  moreover from del_expired_other [of ek s1] b have "ticks s2 = ticks s1" by simp
  ultimately show ?thesis using a b by (cases r) (simp_all add: clean_expired_keys_def save_store_fields)
qed

lemma expired_keys_late:
  "expired_keys E ks s = (ek, s') \<Longrightarrow> k \<in> set ks \<Longrightarrow> getitem (ttl_store s) k = Some e \<Longrightarrow>
   \<forall>n\<ge>ticks s. e < time_time E n \<Longrightarrow> k \<in> set ek"
proof (induction ks arbitrary: s ek s')
  case Nil
  then show ?case by simp
next
  case (Cons k' ks)
  obtain b s1 where a: "is_key_expired E k' s = (b, s1)" by fastforce
  obtain r s2 where c: "expired_keys E ks s1 = (r, s2)" by fastforce
  from Cons.prems(1) a c have ek: "ek = (if b then k' # r else r)" by simp
  show ?case
  proof (cases "k' = k")
    case True
    with a Cons.prems(3,4) have b by (auto simp: is_key_expired_def)
    with ek True show ?thesis by simp
  next
    case False
    with Cons.prems(2) have m: "k \<in> set ks" by simp
    from is_key_expired_fields [OF a] Cons.prems(3) have g: "getitem (ttl_store s1) k = Some e" by simp
    have "ticks s \<le> ticks s1" using a by (auto simp: is_key_expired_def split: option.splits)
    with Cons.prems(4) have l: "\<forall>n\<ge>ticks s1. e < time_time E n" by auto
    from Cons.IH [OF c m g l] ek show ?thesis by simp
  qed
qed

lemma clean_expired_keys_evicts:
  assumes d: "distinct (keys (ttl_store s))" and inv: "ttl_inv s"
    and g: "getitem (ttl_store s) k = Some e" and late: "\<forall>n\<ge>ticks s. e < time_time E n"
  shows "\<exists>s1. clean_expired_keys E s = (Inr (), s1) \<and> \<not> contains k (store s1) \<and>
           \<not> contains k (ttl_store s1)"
proof -
  from clean_expired_keys_ok [OF d inv, of E] obtain ek s1 where
    e: "expired_keys E (keys (ttl_store s)) s = (ek, s1)" and
    c: "clean_expired_keys E s =
             (Inr (), save_store E (s1\<lparr>store := filter (\<lambda>p. fst p \<notin> set ek) (store s),
                ttl_store := filter (\<lambda>p. fst p \<notin> set ek) (ttl_store s)\<rparr>))" by blast
  from g have "k \<in> set (keys (ttl_store s))"
    using contains_getitem [of k "ttl_store s"] by (simp add: contains_def)
  from expired_keys_late [OF e this g late] have "k \<in> set ek" .
  then show ?thesis using c by (simp add: save_store_fields contains_filter)
qed

lemma create_ttl_recorded:
  assumes "create E key val (Some t) s = (r, s')" and "r = Inr () \<or> r = Inl MemoryError"
    and "t \<noteq> 0"
  shows "getitem (ttl_store s') key
           = Some (float_add E (time_time E (ticks s + length (ttl_store s))) t) \<and>
         ticks s' = Suc (ticks s + length (ttl_store s)) \<and> getitem (store s') key = Some val"
proof -
  from create_inserted [OF assms(1,2)] obtain s1 where
    c: "clean_expired_keys E s = (Inr (), s1)" and
    s': "s' = save_store E (record_ttl E key (Some t) (s1\<lparr>store := setitem key val (store s1)\<rparr>))"
    by blast
  from clean_expired_keys_ticks [of E s] c have "ticks s1 = ticks s + length (ttl_store s)" by simp
  then show ?thesis using assms(3)
    by (simp add: s' save_store_fields record_ttl_def getitem_setitem)
qed

lemma create_distinct_ttl:
  assumes d: "distinct (keys (ttl_store s))"
  shows "distinct (keys (ttl_store (snd (create E key val ttl s))))"
proof -
  obtain r s1 where c: "clean_expired_keys E s = (r, s1)" by fastforce
  have d1: "distinct (keys (ttl_store s1))" using clean_expired_keys_sub [of E s] c d by simp
  have d2: "distinct (keys (ttl_store (record_ttl E key ttl (s1\<lparr>store := setitem key val (store s1)\<rparr>))))"
    using record_ttl_distinct [of "s1\<lparr>store := setitem key val (store s1)\<rparr>" E key ttl] d1 by simp
  show ?thesis
  proof (cases "length key > 32 \<or> length (json_dumps E val) > 16 * 1024")
    case True
    then show ?thesis using d by (auto simp: create_def)
  next
    case False
    then show ?thesis using c d1 d2
      by (cases r) (simp_all add: create_def Let_def save_store_fields)
  qed
qed

text \<open>
  Claim C3, amended. A successful \<open>create(key, value, ttl)\<close> with \<open>ttl\<close> different from 0
  records as expiry the float that Python's \<open>now + ttl\<close> returns (\<open>float_add\<close>: the sum,
  rounded), where \<open>now\<close> is the clock reading that follows the readings of the sweep; and
  when every later reading of the clock is greater than the recorded expiry, the next
  \<open>read(key)\<close> raises \<open>KeyError\<close> "not found". The state is well-formed (\<open>ttl_store\<close> a
  dictionary whose keys are keys of \<open>store\<close>).
\<close>

theorem ttl_expiry_strict:
  assumes "distinct (keys (ttl_store s))" and "ttl_inv s" and "t \<noteq> 0"
    and "fst (create E key val (Some t) s) = Inr ()"
  shows "getitem (ttl_store (snd (create E key val (Some t) s))) key
           = Some (float_add E (time_time E (ticks s + length (ttl_store s))) t) \<and>
         ((\<forall>n\<ge>ticks (snd (create E key val (Some t) s)).
              float_add E (time_time E (ticks s + length (ttl_store s))) t < time_time E n) \<longrightarrow>
          fst (read E key (snd (create E key val (Some t) s))) = Inl KeyError_not_found)"
proof -
  let ?s' = "snd (create E key val (Some t) s)"
  let ?e = "float_add E (time_time E (ticks s + length (ttl_store s))) t"
  have c: "create E key val (Some t) s = (Inr (), ?s')"
    using assms(4) by (metis prod.collapse)
  from create_ttl_recorded [OF c _ assms(3)] have g: "getitem (ttl_store ?s') key = Some ?e" by simp
  have d': "distinct (keys (ttl_store ?s'))" using create_distinct_ttl [OF assms(1)] .
  have i': "ttl_inv ?s'" using create_ttl_inv [OF assms(2)] .
  have "fst (read E key ?s') = Inl KeyError_not_found" if late: "\<forall>n\<ge>ticks ?s'. ?e < time_time E n"
  proof -
    from clean_expired_keys_evicts [OF d' i' g late] obtain s1 where
      "clean_expired_keys E ?s' = (Inr (), s1)" "\<not> contains key (store s1)" by blast
    then show ?thesis by (simp add: read_def contains_getitem)
  qed
  with g show ?thesis by blast
qed

theorem ttl_expiry_strict_witness:
  "distinct (keys (ttl_store (demo_state 1000))) \<and> ttl_inv (demo_state 1000) \<and> (10::real) \<noteq> 0 \<and>
   fst (create (demo_env (\<lambda>n. 100 + 20 * real n)) ''key1'' ''Ram'' (Some 10) (demo_state 1000)) = Inr () \<and>
   getitem (ttl_store (snd (create (demo_env (\<lambda>n. 100 + 20 * real n)) ''key1'' ''Ram'' (Some 10)
      (demo_state 1000)))) ''key1'' = Some 130 \<and>
   fst (read (demo_env (\<lambda>n. 100 + 20 * real n)) ''key1''
          (snd (create (demo_env (\<lambda>n. 100 + 20 * real n)) ''key1'' ''Ram'' (Some 10) (demo_state 1000))))
     = Inl KeyError_not_found"
proof -
  let ?E = "demo_env (\<lambda>n. 100 + 20 * real n)"
  let ?s' = "snd (create ?E ''key1'' ''Ram'' (Some 10) (demo_state 1000))"
  have h1: "distinct (keys (ttl_store (demo_state 1000)))" by (simp add: run_defs)
  have h2: "ttl_inv (demo_state 1000)" by (simp add: run_defs)
  have h3: "(10::real) \<noteq> 0" by simp
  have h4: "fst (create ?E ''key1'' ''Ram'' (Some 10) (demo_state 1000)) = Inr ()"
    by (simp add: run_defs)
  have tk: "ticks ?s' = 2" by (simp add: run_defs)
  have ex: "float_add ?E (time_time ?E (ticks (demo_state 1000) + length (ttl_store (demo_state 1000)))) 10
              = 130"
    by (simp add: run_defs)
  have late: "\<forall>n\<ge>2. (130::real) < 100 + 20 * real n"
  proof (intro allI impI)
    fix n :: nat assume "2 \<le> n"
    then have "(2::real) \<le> real n" by simp
    then show "(130::real) < 100 + 20 * real n" by simp
  qed
  have tt: "\<And>n. time_time ?E n = 100 + 20 * real n" by (simp add: demo_env_def)
  note th = ttl_expiry_strict [OF h1 h2 h3 h4]
  have g: "getitem (ttl_store ?s') ''key1'' = Some 130" using th [THEN conjunct1] unfolding ex .
  have late': "\<forall>n\<ge>ticks ?s'.
      float_add ?E (time_time ?E (ticks (demo_state 1000) + length (ttl_store (demo_state 1000)))) 10
        < time_time ?E n"
  proof (intro allI impI)
    fix n assume "ticks ?s' \<le> n"
    then have "2 \<le> n" by (simp only: tk)
    with late have l: "(130::real) < 100 + 20 * real n" by blast
    show "float_add ?E (time_time ?E (ticks (demo_state 1000) + length (ttl_store (demo_state 1000)))) 10
        < time_time ?E n"
      unfolding ex using l by (simp only: tt)
  qed
  have r: "fst (read ?E ''key1'' ?s') = Inl KeyError_not_found"
    using th [THEN conjunct2, THEN mp, OF late'] .
  from h1 h2 h3 h4 g r show ?thesis by blast
qed

text \<open>
  The claim as stated fails twice. With \<open>ttl = 0\<close> nothing is recorded (\<open>if ttl:\<close> is false)
  and the key is read however late. With \<open>ttl = 10\<close> at the instant 100 the expiry is 110,
  and a \<open>read\<close> at the instant 110 returns the value: \<open>_is_key_expired\<close> compares with
  \<open>>\<close>.
\<close>

theorem ttl_zero_and_boundary_counterexample:
  "getitem (ttl_store (snd (create (demo_env (\<lambda>n. 100 + 1000 * real n)) ''key1'' ''Ram'' (Some 0)
      (demo_state 1000)))) ''key1'' = None \<and>
   fst (read (demo_env (\<lambda>n. 100 + 1000 * real n)) ''key1''
          (snd (create (demo_env (\<lambda>n. 100 + 1000 * real n)) ''key1'' ''Ram'' (Some 0) (demo_state 1000))))
     = Inr ''Ram'' \<and>
   getitem (ttl_store (snd (create (demo_env (\<lambda>n. if n \<le> 1 then 100 else 110)) ''key1'' ''Ram'' (Some 10)
      (demo_state 1000)))) ''key1'' = Some 110 \<and>
   ticks (snd (create (demo_env (\<lambda>n. if n \<le> 1 then 100 else 110)) ''key1'' ''Ram'' (Some 10)
      (demo_state 1000))) = 2 \<and>
   time_time (demo_env (\<lambda>n. if n \<le> 1 then 100 else 110)) 2 \<ge> 110 \<and>
   fst (read (demo_env (\<lambda>n. if n \<le> 1 then 100 else 110)) ''key1''
          (snd (create (demo_env (\<lambda>n. if n \<le> 1 then 100 else 110)) ''key1'' ''Ram'' (Some 10)
             (demo_state 1000))))
     = Inr ''Ram''"
proof -
  let ?E = "demo_env (\<lambda>n. 100 + 1000 * real n)"
  let ?F = "demo_env (\<lambda>n. if n \<le> 1 then 100 else 110)"
  have a: "create ?E ''key1'' ''Ram'' (Some 0) (demo_state 1000) =
     (Inr (), \<lparr>store = [(''perm'', ''p''), (''key1'', ''Ram'')], ttl_store = [],
        max_file_size = 1000, backing_file = Some ([(''perm'', ''p''), (''key1'', ''Ram'')], []),
        ticks = 1\<rparr>)"
    by (simp add: run_defs)
  have b: "create ?F ''key1'' ''Ram'' (Some 10) (demo_state 1000) =
     (Inr (), \<lparr>store = [(''perm'', ''p''), (''key1'', ''Ram'')], ttl_store = [(''key1'', 110)],
        max_file_size = 1000,
        backing_file = Some ([(''perm'', ''p''), (''key1'', ''Ram'')], [(''key1'', 110)]),
        ticks = 2\<rparr>)"
    by (simp add: run_defs)
  have c: "fst (read ?E ''key1'' (snd (create ?E ''key1'' ''Ram'' (Some 0) (demo_state 1000)))) = Inr ''Ram''"
    unfolding a by (simp add: run_defs)
  have d: "fst (read ?F ''key1'' (snd (create ?F ''key1'' ''Ram'' (Some 10) (demo_state 1000)))) = Inr ''Ram''"
    unfolding b by (simp add: run_defs)
  have e: "time_time ?F 2 \<ge> 110" by (simp add: demo_env_def)
  show ?thesis unfolding a b using c d e unfolding a b by (simp add: getitem_def)
qed

section \<open>When the sweep runs\<close>

lemma contains_delete: "contains k (AList.delete k' d) \<Longrightarrow> contains k d"
  by (auto simp: contains_def keys_def delete_keys)

lemma contains_setitem: "contains k (setitem k' v d) \<longleftrightarrow> k = k' \<or> contains k d"
  by (auto simp: contains_def keys_setitem)

lemma contains_record_ttl:
  "contains k (ttl_store (record_ttl E key ttl s)) \<Longrightarrow> k = key \<or> contains k (ttl_store s)"
  using record_ttl_keys [of E key ttl s] by (auto simp: contains_def)

lemma batch_loop_keys:
  "(contains k (store (snd (batch_loop E ttl items s))) \<longrightarrow> k \<in> fst ` set items \<or> contains k (store s)) \<and>
   (contains k (ttl_store (snd (batch_loop E ttl items s))) \<longrightarrow>
      k \<in> fst ` set items \<or> contains k (ttl_store s))"
proof (induction items arbitrary: s)
  case Nil
  then show ?case by simp
next
  case (Cons it items)
  obtain key val where it: "it = (key, val)" by (cases it)
  let ?sa = "record_ttl E key ttl (s\<lparr>store := setitem key val (store s)\<rparr>)"
  have a: "contains k (store ?sa) \<Longrightarrow> k = key \<or> contains k (store s)"
    by (simp add: record_ttl_fields contains_setitem)
  have b: "contains k (ttl_store ?sa) \<Longrightarrow> k = key \<or> contains k (ttl_store s)"
    using contains_record_ttl [of k E key ttl "s\<lparr>store := setitem key val (store s)\<rparr>"] by simp
  show ?case
  proof (cases "length key > 32 \<or> length (json_dumps E val) > 16 * 1024 \<or> contains key (store s)")
    case True
    then show ?thesis by (auto simp: it)
  next
    case False
    then have "batch_loop E ttl (it # items) s = batch_loop E ttl items ?sa" by (simp add: it)
    with Cons.IH [of ?sa] a b show ?thesis by (auto simp: it)
  qed
qed

lemma read_evicts:
  assumes "distinct (keys (ttl_store s))" and "ttl_inv s"
    and "getitem (ttl_store s) k = Some e" and "\<forall>n\<ge>ticks s. e < time_time E n"
  shows "\<not> contains k (store (snd (read E key s))) \<and> \<not> contains k (ttl_store (snd (read E key s)))"
proof -
  from clean_expired_keys_evicts [OF assms] obtain s1 where
    "clean_expired_keys E s = (Inr (), s1)" "\<not> contains k (store s1)" "\<not> contains k (ttl_store s1)"
    by blast
  then show ?thesis by (simp add: read_state)
qed

lemma delete_evicts:
  assumes "distinct (keys (ttl_store s))" and "ttl_inv s"
    and "getitem (ttl_store s) k = Some e" and "\<forall>n\<ge>ticks s. e < time_time E n"
  shows "\<not> contains k (store (snd (delete E key s))) \<and> \<not> contains k (ttl_store (snd (delete E key s)))"
proof -
  from clean_expired_keys_evicts [OF assms] obtain s1 where
    c: "clean_expired_keys E s = (Inr (), s1)" and n: "\<not> contains k (store s1)" "\<not> contains k (ttl_store s1)"
    by blast
  from n have "\<not> contains k (AList.delete key (store s1))" "\<not> contains k (AList.delete key (ttl_store s1))"
    using contains_delete by fast+
  with n c show ?thesis by (simp add: delete_def Let_def save_store_fields)
qed

lemma create_evicts:
  assumes "distinct (keys (ttl_store s))" and "ttl_inv s"
    and "getitem (ttl_store s) k = Some e" and "\<forall>n\<ge>ticks s. e < time_time E n"
    and v: "length key \<le> 32" "length (json_dumps E val) \<le> 16 * 1024"
  shows "(k \<noteq> key \<longrightarrow> \<not> contains k (store (snd (create E key val ttl s))) \<and>
                     \<not> contains k (ttl_store (snd (create E key val ttl s)))) \<and>
         (k = key \<longrightarrow> fst (create E key val ttl s) \<noteq> Inl KeyError_exists)"
proof -
  from clean_expired_keys_evicts [OF assms(1-4)] obtain s1 where
    c: "clean_expired_keys E s = (Inr (), s1)" and n: "\<not> contains k (store s1)" "\<not> contains k (ttl_store s1)"
    by blast
  let ?s3 = "record_ttl E key ttl (s1\<lparr>store := setitem key val (store s1)\<rparr>)"
  have a: "k \<noteq> key \<Longrightarrow> \<not> contains k (store ?s3)"
    using n by (simp add: record_ttl_fields contains_setitem)
  have b: "k \<noteq> key \<Longrightarrow> \<not> contains k (ttl_store ?s3)"
    using n contains_record_ttl [of k E key ttl "s1\<lparr>store := setitem key val (store s1)\<rparr>"] by auto
  have e: "check_file_size E t \<noteq> Inl KeyError_exists" for t :: "('a, 'b) kv_state"
    by (simp add: check_file_size_def split: option.splits)
  show ?thesis
  proof (cases "contains key (store s1)")
    case True
    with n c v show ?thesis by (auto simp: create_def)
  next
    case False
    with c v a b e show ?thesis by (simp add: create_def Let_def save_store_fields)
  qed
qed

lemma batch_create_evicts:
  assumes "distinct (keys (ttl_store s))" and "ttl_inv s"
    and "getitem (ttl_store s) k = Some e" and "\<forall>n\<ge>ticks s. e < time_time E n"
    and l: "length items \<le> 100" and nk: "k \<notin> fst ` set items"
  shows "\<not> contains k (store (snd (batch_create E items ttl s))) \<and>
         \<not> contains k (ttl_store (snd (batch_create E items ttl s)))"
proof -
  from clean_expired_keys_evicts [OF assms(1-4)] obtain s1 where
    c: "clean_expired_keys E s = (Inr (), s1)" and n: "\<not> contains k (store s1)" "\<not> contains k (ttl_store s1)"
    by blast
  obtain r2 s2 where b: "batch_loop E ttl items s1 = (r2, s2)" by fastforce
  from batch_loop_keys [of k E ttl items s1] b n nk
  have n2: "\<not> contains k (store s2)" "\<not> contains k (ttl_store s2)" by auto
  show ?thesis using l c b n2
    by (cases r2) (simp_all add: batch_create_def Let_def save_store_fields)
qed

text \<open>
  Claim C4, amended. In a well-formed state, take an entry \<open>k\<close> whose expiry \<open>e\<close> is before
  every reading the clock gives from now on. \<open>read\<close> and \<open>delete\<close> always sweep first: \<open>k\<close>
  is in neither dictionary afterwards, also when they raise "not found". \<open>create\<close> sweeps
  once its key and value have passed the length and size checks: \<open>k\<close> is gone unless it is
  the created key itself, and then the call does not raise "already exists".
  \<open>batch_create\<close> sweeps once the batch has at most 100 items, before it looks at any
  item: \<open>k\<close> is gone unless it is a key of the batch, also when an item then fails. A
  \<open>create\<close> whose key is too long or whose value is too large, and a \<open>batch_create\<close> of more
  than 100 items, raise \<open>ValueError\<close> before the sweep and return the state as it was.
\<close>

theorem sweep_after_argument_checks:
  assumes "distinct (keys (ttl_store s))" and "ttl_inv s"
    and "getitem (ttl_store s) k = Some e" and "\<forall>n\<ge>ticks s. e < time_time E n"
  shows "(\<not> contains k (store (snd (read E key s))) \<and> \<not> contains k (ttl_store (snd (read E key s)))) \<and>
         (\<not> contains k (store (snd (delete E key s))) \<and>
          \<not> contains k (ttl_store (snd (delete E key s)))) \<and>
         (length key \<le> 32 \<and> length (json_dumps E val) \<le> 16 * 1024 \<longrightarrow>
            (k \<noteq> key \<longrightarrow> \<not> contains k (store (snd (create E key val ttl s))) \<and>
                            \<not> contains k (ttl_store (snd (create E key val ttl s)))) \<and>
            (k = key \<longrightarrow> fst (create E key val ttl s) \<noteq> Inl KeyError_exists)) \<and>
         (length items \<le> 100 \<and> k \<notin> fst ` set items \<longrightarrow>
            \<not> contains k (store (snd (batch_create E items ttl s))) \<and>
            \<not> contains k (ttl_store (snd (batch_create E items ttl s)))) \<and>
         (length key > 32 \<or> length (json_dumps E val) > 16 * 1024 \<longrightarrow>
            create E key val ttl s = (Inl ValueError, s)) \<and>
         (length items > 100 \<longrightarrow> batch_create E items ttl s = (Inl ValueError, s))"
proof -
  have "length key > 32 \<or> length (json_dumps E val) > 16 * 1024 \<longrightarrow>
            create E key val ttl s = (Inl ValueError, s)" by (auto simp: create_def)
  moreover have "length items > 100 \<longrightarrow> batch_create E items ttl s = (Inl ValueError, s)"
    by (simp add: batch_create_def)
  ultimately show ?thesis
    using read_evicts [OF assms, of key] delete_evicts [OF assms, of key]
      create_evicts [OF assms, of key val ttl] batch_create_evicts [OF assms, of items ttl]
    by blast
qed

theorem sweep_after_argument_checks_witness:
  "distinct (keys (ttl_store (demo_state 1000))) \<and> ttl_inv (demo_state 1000) \<and>
   getitem (ttl_store (demo_state 1000)) ''temp'' = Some 50 \<and>
   50 < time_time (demo_env (\<lambda>n. 100)) (ticks (demo_state 1000)) \<and>
   \<not> contains ''temp'' (store (snd (read (demo_env (\<lambda>n. 100)) ''absent'' (demo_state 1000)))) \<and>
   \<not> contains ''temp'' (store (snd (delete (demo_env (\<lambda>n. 100)) ''absent'' (demo_state 1000)))) \<and>
   length ''perm'' \<le> 32 \<and> length (json_dumps (demo_env (\<lambda>n. 100)) ''v'') \<le> 16 * 1024 \<and>
   \<not> contains ''temp'' (store (snd (create (demo_env (\<lambda>n. 100)) ''perm'' ''v'' None (demo_state 1000)))) \<and>
   fst (create (demo_env (\<lambda>n. 100)) ''temp'' ''v'' None (demo_state 1000)) \<noteq> Inl KeyError_exists \<and>
   length [(''a'', ''1''), (''perm'', ''2'')] \<le> 100 \<and>
   ''temp'' \<notin> fst ` set [(''a'', ''1''), (''perm'', ''2'')] \<and>
   \<not> contains ''temp'' (store (snd (batch_create (demo_env (\<lambda>n. 100))
        [(''a'', ''1''), (''perm'', ''2'')] None (demo_state 1000)))) \<and>
   length (replicate 33 CHR ''k'') > 32 \<and>
   create (demo_env (\<lambda>n. 100)) (replicate 33 CHR ''k'') ''v'' None (demo_state 1000)
     = (Inl ValueError, demo_state 1000) \<and>
   length (map (\<lambda>n. (replicate n CHR ''k'', ''v'')) [0..<101]) > 100 \<and>
   batch_create (demo_env (\<lambda>n. 100)) (map (\<lambda>n. (replicate n CHR ''k'', ''v'')) [0..<101]) None
     (demo_state 1000) = (Inl ValueError, demo_state 1000)"
proof -
  let ?E = "demo_env (\<lambda>n. 100)"
  let ?s = "demo_state 1000"
  have h1: "distinct (keys (ttl_store ?s))" by (simp add: run_defs)
  have h2: "ttl_inv ?s" by (simp add: run_defs)
  have h3: "getitem (ttl_store ?s) ''temp'' = Some 50" by (simp add: run_defs)
  have h4: "\<forall>n\<ge>ticks ?s. 50 < time_time ?E n" by (simp add: demo_env_def)
  note th = sweep_after_argument_checks [OF h1 h2 h3 h4]
  have v1: "length ''perm'' \<le> 32 \<and> length (json_dumps ?E ''v'') \<le> 16 * 1024"
    by (simp add: demo_env_def)
  have v2: "length ''temp'' \<le> 32 \<and> length (json_dumps ?E ''v'') \<le> 16 * 1024"
    by (simp add: demo_env_def)
  have v3: "length [(''a'', ''1''), (''perm'', ''2'')] \<le> 100 \<and>
            ''temp'' \<notin> fst ` set [(''a'', ''1''), (''perm'', ''2'')]" by simp
  have v4: "length (replicate 33 CHR ''k'') > 32" by simp
  have v5: "length (map (\<lambda>n. (replicate n CHR ''k'', ''v'')) [0..<101]) > 100" by simp
  have ne: "''temp'' \<noteq> ''perm''" by simp
  have c1: "\<not> contains ''temp'' (store (snd (read ?E ''absent'' ?s)))"
    using th [of "''absent''"] by blast
  have c2: "\<not> contains ''temp'' (store (snd (delete ?E ''absent'' ?s)))"
    using th [of "''absent''"] by blast
  have c3: "\<not> contains ''temp'' (store (snd (create ?E ''perm'' ''v'' None ?s)))"
    using th [of "''perm''" "''v''" None] v1 ne by blast
  have c4: "fst (create ?E ''temp'' ''v'' None ?s) \<noteq> Inl KeyError_exists"
    using th [of "''temp''" "''v''" None] v2 by blast
  have c5: "\<not> contains ''temp'' (store (snd (batch_create ?E
        [(''a'', ''1''), (''perm'', ''2'')] None ?s)))"
    using th [of _ _ None "[(''a'', ''1''), (''perm'', ''2'')]"] v3 by blast
  have c6: "create ?E (replicate 33 CHR ''k'') ''v'' None ?s = (Inl ValueError, ?s)"
    using th [of "replicate 33 CHR ''k''" "''v''" None] v4 by blast
  have c7: "batch_create ?E (map (\<lambda>n. (replicate n CHR ''k'', ''v'')) [0..<101]) None ?s
              = (Inl ValueError, ?s)"
    using th [of _ _ None "map (\<lambda>n. (replicate n CHR ''k'', ''v'')) [0..<101]"] v5 by blast
  have h4': "50 < time_time ?E (ticks ?s)" using h4 by blast
  from h1 h2 h3 h4' v1 v3 v4 v5 c1 c2 c3 c4 c5 c6 c7 show ?thesis by blast
qed

text \<open>
  The claim as stated fails: at the instant 100 the key \<open>temp\<close> (expiry 50) is expired, and
  it is still in \<open>store\<close> and \<open>ttl_store\<close> after a \<open>create\<close> with a key of 33 characters,
  after a \<open>create\<close> with a value whose dump has 16385 characters, and after a
  \<open>batch_create\<close> of 101 items, which does not write the file either.
\<close>

theorem rejected_call_does_not_sweep_counterexample:
  "getitem (ttl_store (demo_state 1000)) ''temp'' = Some 50 \<and>
   50 < time_time (demo_env (\<lambda>n. 100)) 0 \<and>
   contains ''temp'' (store (snd (create (demo_env (\<lambda>n. 100)) (replicate 33 CHR ''k'') ''v'' None
      (demo_state 1000)))) \<and>
   contains ''temp'' (ttl_store (snd (create (demo_env (\<lambda>n. 100)) (replicate 33 CHR ''k'') ''v'' None
      (demo_state 1000)))) \<and>
   contains ''temp'' (store (snd (create (demo_env (\<lambda>n. 100)) ''new'' (replicate 16383 CHR ''x'') None
      (demo_state 1000)))) \<and>
   contains ''temp'' (store (snd (batch_create (demo_env (\<lambda>n. 100))
      (map (\<lambda>n. (replicate n CHR ''k'', ''v'')) [0..<101]) None (demo_state 1000)))) \<and>
   backing_file (snd (batch_create (demo_env (\<lambda>n. 100))
      (map (\<lambda>n. (replicate n CHR ''k'', ''v'')) [0..<101]) None (demo_state 1000))) = None"
proof -
  let ?E = "demo_env (\<lambda>n. 100)"
  let ?s = "demo_state 1000"
  have a: "create ?E (replicate 33 CHR ''k'') ''v'' None ?s = (Inl ValueError, ?s)"
    by (simp add: create_def)
  have "length (json_dumps ?E (replicate 16383 CHR ''x'')) = 16385" by (simp add: demo_env_def)
  then have b: "create ?E ''new'' (replicate 16383 CHR ''x'') None ?s = (Inl ValueError, ?s)"
    by (simp add: create_def)
  have c: "batch_create ?E (map (\<lambda>n. (replicate n CHR ''k'', ''v'')) [0..<101]) None ?s
             = (Inl ValueError, ?s)"
    by (simp add: batch_create_def)
  have d: "getitem (ttl_store ?s) ''temp'' = Some 50" "contains ''temp'' (store ?s)"
    "contains ''temp'' (ttl_store ?s)" "backing_file ?s = None"
    by (simp_all add: run_defs)
  have e: "50 < time_time ?E 0" by (simp add: demo_env_def)
  show ?thesis unfolding a b c using d e by simp
qed

section \<open>Key lengths\<close>

lemma keys_ok_sub: "keys_ok s \<Longrightarrow> set (store t) \<subseteq> set (store s) \<Longrightarrow> keys_ok t"
  by (auto simp: keys_ok_def keys_def)

lemma clean_expired_keys_keys_ok: "keys_ok s \<Longrightarrow> keys_ok (snd (clean_expired_keys E s))"
  using clean_expired_keys_sub [of E s] by (blast intro: keys_ok_sub)

lemma insert_keys_ok:
  "keys_ok s \<Longrightarrow> length key \<le> 32 \<Longrightarrow>
     keys_ok (record_ttl E key ttl (s\<lparr>store := setitem key val (store s)\<rparr>))"
  by (simp add: keys_ok_def record_ttl_fields keys_setitem)

lemma save_store_keys_ok: "keys_ok (save_store E s) = keys_ok s"
  by (simp add: keys_ok_def save_store_fields)

lemma create_keys_ok: "keys_ok s \<Longrightarrow> keys_ok (snd (create E key val ttl s))"
proof -
  assume ok: "keys_ok s"
  obtain r s1 where c: "clean_expired_keys E s = (r, s1)" by fastforce
  have ok1: "keys_ok s1" using clean_expired_keys_keys_ok [OF ok, of E] c by simp
  show ?thesis
  proof (cases "length key > 32 \<or> length (json_dumps E val) > 16 * 1024")
    case True
    then show ?thesis using ok by (auto simp: create_def)
  next
    case False
    then have "length key \<le> 32" by simp
    from insert_keys_ok [OF ok1 this, of E ttl val] False c ok1 show ?thesis
      by (cases r) (simp_all add: create_def Let_def save_store_keys_ok)
  qed
qed

lemma read_keys_ok: "keys_ok s \<Longrightarrow> keys_ok (snd (read E key s))"
  by (simp add: read_state clean_expired_keys_keys_ok)

lemma delete_keys_ok: "keys_ok s \<Longrightarrow> keys_ok (snd (delete E key s))"
proof -
  assume ok: "keys_ok s"
  obtain r s1 where c: "clean_expired_keys E s = (r, s1)" by fastforce
  have ok1: "keys_ok s1" using clean_expired_keys_keys_ok [OF ok, of E] c by simp
  have d: "keys_ok (s1\<lparr>store := AList.delete key (store s1)\<rparr>)"
    using ok1 set_delete_sub [of key "store s1"] by (auto simp: keys_ok_def keys_def)
  then have d2: "keys_ok (s1\<lparr>store := AList.delete key (store s1),
                             ttl_store := AList.delete key (ttl_store s1)\<rparr>)"
    by (simp add: keys_ok_def)
  show ?thesis using c ok1 d d2
    by (cases r) (simp_all add: delete_def Let_def save_store_keys_ok)
qed

lemma batch_loop_keys_ok: "keys_ok s \<Longrightarrow> keys_ok (snd (batch_loop E ttl items s))"
proof (induction items arbitrary: s)
  case Nil
  then show ?case by simp
next
  case (Cons it items)
  obtain key val where it: "it = (key, val)" by (cases it)
  show ?case
  proof (cases "length key > 32")
    case True
    then show ?thesis using Cons.prems by (simp add: it)
  next
    case False
    then have "length key \<le> 32" by simp
    from Cons.IH [OF insert_keys_ok [OF Cons.prems this]] Cons.prems show ?thesis
      by (simp add: it)
  qed
qed

lemma batch_create_keys_ok: "keys_ok s \<Longrightarrow> keys_ok (snd (batch_create E items ttl s))"
proof -
  assume ok: "keys_ok s"
  obtain r s1 where c: "clean_expired_keys E s = (r, s1)" by fastforce
  have ok1: "keys_ok s1" using clean_expired_keys_keys_ok [OF ok, of E] c by simp
  obtain r2 s2 where b: "batch_loop E ttl items s1 = (r2, s2)" by fastforce
  have ok2: "keys_ok s2" using batch_loop_keys_ok [OF ok1, of E ttl items] b by simp
  show ?thesis
  proof (cases "length items > 100")
    case True
    then show ?thesis using ok by (simp add: batch_create_def)
  next
    case False
    then show ?thesis using c b ok1 ok2
      by (cases r; cases r2) (simp_all add: batch_create_def Let_def save_store_keys_ok)
  qed
qed

lemma batch_loop_long_key:
  "\<exists>(k, v) \<in> set items. length k > 32 \<Longrightarrow> \<exists>e. fst (batch_loop E ttl items s) = Inl e"
proof (induction items arbitrary: s)
  case Nil
  then show ?case by simp
next
  case (Cons it items)
  obtain key val where it: "it = (key, val)" by (cases it)
  show ?case
  proof (cases "length key > 32 \<or> length (json_dumps E val) > 16 * 1024 \<or> contains key (store s)")
    case True
    then show ?thesis by (auto simp: it)
  next
    case False
    with Cons.prems have "\<exists>(k, v) \<in> set items. length k > 32" by (auto simp: it)
    from Cons.IH [OF this] False show ?thesis by (simp add: it)
  qed
qed

lemma batch_create_long_key:
  assumes "\<exists>(k, v) \<in> set items. length k > 32"
  shows "\<exists>e. fst (batch_create E items ttl s) = Inl e"
proof -
  obtain r s1 where c: "clean_expired_keys E s = (r, s1)" by fastforce
  from batch_loop_long_key [OF assms, of E ttl s1] obtain e s2 where
    b: "batch_loop E ttl items s1 = (Inl e, s2)" by (metis prod.collapse)
  show ?thesis
  proof (cases "length items > 100")
    case True
    then show ?thesis by (simp add: batch_create_def)
  next
    case False
    then show ?thesis using c b by (cases r) (simp_all add: batch_create_def)
  qed
qed

text \<open>
  Claim C6, amended. \<open>create\<close> raises \<open>ValueError\<close> for a key longer than 32 characters and
  changes nothing; \<open>batch_create\<close> raises on every batch that has such a key; and when no key
  of \<open>store\<close> is longer than 32 characters, this is so again after \<open>create\<close>, \<open>read\<close>,
  \<open>delete\<close> and \<open>batch_create\<close>, whether they return or raise. There is no lower bound: see
  the counterexample.
\<close>

theorem keys_at_most_32:
  "(length key > 32 \<longrightarrow> create E key val ttl s = (Inl ValueError, s)) \<and>
   ((\<exists>(k, v) \<in> set items. length k > 32) \<longrightarrow> (\<exists>e. fst (batch_create E items ttl s) = Inl e)) \<and>
   (keys_ok s \<longrightarrow>
      keys_ok (snd (create E key val ttl s)) \<and> keys_ok (snd (read E key s)) \<and>
      keys_ok (snd (delete E key s)) \<and> keys_ok (snd (batch_create E items ttl s)))"
proof -
  have "length key > 32 \<longrightarrow> create E key val ttl s = (Inl ValueError, s)"
    by (simp add: create_def)
  then show ?thesis
    using batch_create_long_key [of items E ttl s] create_keys_ok [of s E key val ttl]
      read_keys_ok [of s E key] delete_keys_ok [of s E key] batch_create_keys_ok [of s E items ttl]
    by blast
qed

theorem keys_at_most_32_witness:
  "length (replicate 33 CHR ''k'') > 32 \<and>
   create (demo_env (\<lambda>n. 100)) (replicate 33 CHR ''k'') ''v'' None (demo_state 1000)
     = (Inl ValueError, demo_state 1000) \<and>
   (replicate 33 CHR ''k'', ''2'') \<in> set [(''a'', ''1''), (replicate 33 CHR ''k'', ''2'')] \<and>
   (\<exists>e. fst (batch_create (demo_env (\<lambda>n. 100)) [(''a'', ''1''), (replicate 33 CHR ''k'', ''2'')] None
            (demo_state 1000)) = Inl e) \<and>
   keys_ok (demo_state 1000) \<and>
   keys_ok (snd (create (demo_env (\<lambda>n. 100)) ''new'' ''v'' None (demo_state 1000))) \<and>
   keys_ok (snd (read (demo_env (\<lambda>n. 100)) ''new'' (demo_state 1000))) \<and>
   keys_ok (snd (delete (demo_env (\<lambda>n. 100)) ''new'' (demo_state 1000))) \<and>
   keys_ok (snd (batch_create (demo_env (\<lambda>n. 100)) [(''a'', ''1''), (replicate 33 CHR ''k'', ''2'')] None
            (demo_state 1000)))"
proof -
  let ?E = "demo_env (\<lambda>n. 100)"
  let ?s = "demo_state 1000"
  have h1: "length (replicate 33 CHR ''k'') > 32" by simp
  have h2: "\<exists>(k, v) \<in> set [(''a'', ''1''), (replicate 33 CHR ''k'', ''2'')]. length k > 32" by simp
  have h3: "keys_ok ?s" by (simp add: run_defs)
  note t1 = keys_at_most_32 [of "replicate 33 CHR ''k''" ?E "''v''" None ?s
                               "[(''a'', ''1''), (replicate 33 CHR ''k'', ''2'')]"]
  note t2 = keys_at_most_32 [of "''new''" ?E "''v''" None ?s
                               "[(''a'', ''1''), (replicate 33 CHR ''k'', ''2'')]"]
  have h2': "(replicate 33 CHR ''k'', ''2'') \<in> set [(''a'', ''1''), (replicate 33 CHR ''k'', ''2'')]"
    by simp
  from t1 t2 h1 h2 h2' h3 show ?thesis by blast
qed

text \<open>
  The claim as stated fails: \<open>create\<close> and \<open>batch_create\<close> accept the empty key, which is
  then a key of \<open>store\<close> and can be read.
\<close>

theorem empty_key_counterexample:
  "length ([] :: string) < 1 \<and>
   fst (create (demo_env (\<lambda>n. 100)) [] ''v'' None (demo_state 1000)) = Inr () \<and>
   contains [] (store (snd (create (demo_env (\<lambda>n. 100)) [] ''v'' None (demo_state 1000)))) \<and>
   fst (batch_create (demo_env (\<lambda>n. 100)) [([], ''v'')] None (demo_state 1000)) = Inr () \<and>
   contains [] (store (snd (batch_create (demo_env (\<lambda>n. 100)) [([], ''v'')] None (demo_state 1000)))) \<and>
   fst (read (demo_env (\<lambda>n. 100)) []
     (snd (create (demo_env (\<lambda>n. 100)) [] ''v'' None (demo_state 1000)))) = Inr ''v''"
proof -
  let ?E = "demo_env (\<lambda>n. 100)"
  have a: "create ?E [] ''v'' None (demo_state 1000) =
     (Inr (), \<lparr>store = [(''perm'', ''p''), ([], ''v'')], ttl_store = [],
        max_file_size = 1000, backing_file = Some ([(''perm'', ''p''), ([], ''v'')], []),
        ticks = 1\<rparr>)"
    by (simp add: run_defs)
  have b: "batch_create ?E [([], ''v'')] None (demo_state 1000) =
     (Inr (), \<lparr>store = [(''perm'', ''p''), ([], ''v'')], ttl_store = [],
        max_file_size = 1000, backing_file = Some ([(''perm'', ''p''), ([], ''v'')], []),
        ticks = 1\<rparr>)"
    by (simp add: run_defs)
  have c: "fst (read ?E [] (snd (create ?E [] ''v'' None (demo_state 1000)))) = Inr ''v''"
    unfolding a by (simp add: run_defs)
  show ?thesis unfolding a b using c unfolding a by (simp add: contains_def keys_def)
qed

section \<open>Reachable states are well-formed\<close>

text \<open>The hypotheses on the state made above (\<open>ttl_store\<close> holds no key twice, and its keys
  are keys of \<open>store\<close>) hold in every state of a store started on a new file.\<close>

lemma read_distinct_ttl:
  "distinct (keys (ttl_store s)) \<Longrightarrow> distinct (keys (ttl_store (snd (read E key s))))"
  using clean_expired_keys_sub [of E s] by (simp add: read_state)

lemma delete_distinct_ttl:
  assumes d: "distinct (keys (ttl_store s))"
  shows "distinct (keys (ttl_store (snd (delete E key s))))"
proof -
  obtain r s1 where c: "clean_expired_keys E s = (r, s1)" by fastforce
  have d1: "distinct (keys (ttl_store s1))" using clean_expired_keys_sub [of E s] c d by simp
  from distinct_keys_delete [OF d1, of key] d1 c show ?thesis
    by (cases r) (simp_all add: delete_def Let_def save_store_fields)
qed

lemma reachable_well_formed:
  "reachable E s \<Longrightarrow> distinct (keys (ttl_store s)) \<and> ttl_inv s"
proof (induction rule: reachable.induct)
  case (new_store w mfs)
  then show ?case by (simp add: init_def save_store_def ttl_inv_def keys_def)
next
  case (after_create s key val ttl)
  then show ?case by (simp add: create_distinct_ttl create_ttl_inv)
next
  case (after_read s key)
  then show ?case by (simp add: read_distinct_ttl read_ttl_inv)
next
  case (after_delete s key)
  then show ?case by (simp add: delete_distinct_ttl delete_ttl_inv)
next
  case (after_batch_create s items ttl)
  then show ?case by (simp add: batch_create_distinct_ttl batch_create_ttl_inv)
qed

end
